theory Spec2Isabelle
  imports Complex_Main "HOL-Library.Multiset"
begin

section \<open>The student portal: scoring, dashboard status and login sequence\<close>

text \<open>
  The development follows three source files of the portal:
  \<^item> \<^verbatim>\<open>src/components/StudentExamRoom.tsx\<close>: \<^verbatim>\<open>initExam\<close>, \<^verbatim>\<open>handleSelectOption\<close>
    and \<^verbatim>\<open>calculateScore\<close>;
  \<^item> \<^verbatim>\<open>src/unnamed/part_000\<close> (the student dashboard): \<^verbatim>\<open>getTestStatus\<close> and the
    four lists built from it;
  \<^item> \<^verbatim>\<open>src/unnamed/part_002\<close> (the application shell): \<^verbatim>\<open>fetchRole\<close> and
    \<^verbatim>\<open>handleLoginSuccess\<close>.
  JavaScript values that may be \<^verbatim>\<open>undefined\<close> or \<^verbatim>\<open>null\<close> are options, objects are
  records, React state is passed explicitly, and the answers held by the remote service
  are inputs of the functions that await them.
\<close>

section \<open>JavaScript numbers\<close>

text \<open>
  \<^verbatim>\<open>calculateScore\<close> computes \<^verbatim>\<open>Math.round((correctCount / totalQuestions) * 100)\<close> on
  IEEE 754 binary64 numbers, so the quotient and the product are each rounded to 53
  significant bits (to nearest, ties to even). A non-negative finite double is the pair
  \<open>(m, e)\<close> standing for \<open>m * 2 ^ e\<close>. Exponent limits are left out: the operands here
  are two array counts, at most \<open>2 ^ 32 - 1\<close>, and the constant 100, far from overflow
  and from subnormal numbers.
\<close>

type_synonym double = "nat \<times> int"

fun bitlen :: "nat \<Rightarrow> nat" where
  "bitlen n = (if n = 0 then 0 else Suc (bitlen (n div 2)))"

declare bitlen.simps [simp del]

definition round_half_even :: "nat \<Rightarrow> nat \<Rightarrow> nat" where
  "round_half_even n d =
     (let q = n div d; r = n mod d
      in if 2 * r < d then q
         else if d < 2 * r then q + 1
         else if even q then q else q + 1)"

definition ge_pow2 :: "nat \<Rightarrow> nat \<Rightarrow> int \<Rightarrow> bool" where
  \<comment> \<open>\<open>2 ^ k \<le> n / d\<close>, on integers\<close>
  "ge_pow2 n d k = (if 0 \<le> k then d * 2 ^ nat k \<le> n else d \<le> n * 2 ^ nat (- k))"

definition to_double :: "nat \<Rightarrow> nat \<Rightarrow> double" where
  \<comment> \<open>the double nearest to the fraction \<open>n / d\<close>, for \<open>0 < d\<close>\<close>
  "to_double n d =
     (if n = 0 then (0, 0)
      else let k = int (bitlen n) - int (bitlen d);
               l = (if ge_pow2 n d k then k else k - 1);
               e = l - 52
           in if 0 \<le> e then (round_half_even n (d * 2 ^ nat e), e)
              else (round_half_even (n * 2 ^ nat (- e)) d, e))"

definition js_div :: "nat \<Rightarrow> nat \<Rightarrow> double" where
  \<comment> \<open>\<^verbatim>\<open>a / b\<close> for two counts with \<open>0 < b\<close>\<close>
  "js_div a b = to_double a b"

definition js_mul :: "double \<Rightarrow> nat \<Rightarrow> double" where
  \<comment> \<open>\<^verbatim>\<open>x * k\<close> for a double and a small integer constant\<close>
  "js_mul x k =
     (case x of (m, e) \<Rightarrow>
        if 0 \<le> e then to_double (m * k * 2 ^ nat e) 1
        else to_double (m * k) (2 ^ nat (- e)))"

definition Math_round :: "double \<Rightarrow> nat" where
  \<comment> \<open>\<^verbatim>\<open>Math.round\<close>: the nearest integer, a tie going up; \<open>\<lfloor>x + 1/2\<rfloor>\<close>\<close>
  "Math_round x =
     (case x of (m, e) \<Rightarrow>
        if 0 \<le> e then m * 2 ^ nat e
        else (2 * m + 2 ^ nat (- e)) div (2 * 2 ^ nat (- e)))"

definition double_value :: "double \<Rightarrow> real" where
  \<comment> \<open>the real number a pair stands for\<close>
  "double_value x = (case x of (m, e) \<Rightarrow> real m * 2 powi e)"

text \<open>
  The reference the operations above are held against, on real numbers: the arithmetic
  of ECMAScript Numbers returns the exact result rounded to the nearest binary64 value,
  a tie going to the even mantissa, and \<^verbatim>\<open>Math.round(x)\<close> is \<open>\<lfloor>x + 1/2\<rfloor>\<close>.
  \<open>round_ties_even\<close> rounds a real to an integer that way, and \<open>binary64\<close> rounds a
  non-negative real to 53 significant bits: \<open>\<lfloor>log 2 x\<rfloor>\<close> is the exponent of its
  leading bit.
\<close>

definition round_ties_even :: "real \<Rightarrow> int" where
  "round_ties_even y =
     (let z = \<lfloor>y\<rfloor>
      in if y - of_int z < 1 / 2 then z
         else if 1 / 2 < y - of_int z then z + 1
         else if even z then z else z + 1)"

definition binary64 :: "real \<Rightarrow> real" where
  "binary64 x =
     (if x \<le> 0 then 0
      else let e = \<lfloor>log 2 x\<rfloor> - 52
           in of_int (round_ties_even (x / 2 powi e)) * 2 powi e)"

definition percent :: "nat \<Rightarrow> nat \<Rightarrow> nat" where
  \<comment> \<open>\<^verbatim>\<open>Math.round((correctCount / totalQuestions) * 100)\<close>\<close>
  "percent correctCount totalQuestions =
     Math_round (js_mul (js_div correctCount totalQuestions) 100)"

section \<open>The exam room\<close>

subsection \<open>Data\<close>

text \<open>
  The rows are those of the query in \<^verbatim>\<open>initExam\<close> (lines 40 to 53): an option has
  \<^verbatim>\<open>id, content, key, is_correct\<close>, a question has
  \<^verbatim>\<open>id, content, difficulty, image_url, deleted\<close> and its options. Identifiers are
  primary keys of the database, hence strings; \<^verbatim>\<open>key\<close> may be missing (the code
  writes \<^verbatim>\<open>a.key || ''\<close>).
\<close>

record question_option =
  opt_id :: string
  opt_content :: string
  key :: "string option"
  is_correct :: bool

text \<open>
  A question as \<^verbatim>\<open>calculateScore\<close> sees it. \<^verbatim>\<open>question_options\<close> is read with \<^verbatim>\<open>?.\<close>,
  so it may be undefined. \<^verbatim>\<open>order_index\<close> is the property the comparator of
  \<^verbatim>\<open>initExam\<close> reads from a question; \<open>None\<close> is \<^verbatim>\<open>undefined\<close>.
\<close>

record question =
  q_id :: string
  q_content :: string
  difficulty :: string
  image_url :: "string option"
  deleted :: bool
  weight :: int
  order_index :: "int option"
  question_options :: "question_option list option"

record test =
  test_id :: string
  title :: string
  questions :: "question list option"

text \<open>
  A value read from the answers or kept in a graded answer: \<^verbatim>\<open>undefined\<close> or \<^verbatim>\<open>null\<close>, a
  string, or the member of \<^verbatim>\<open>Object.prototype\<close> of the given name (a function or an
  object, never a string).
\<close>

datatype js_value = Nullish | Text string | Member string

record graded_answer =
  number :: nat
  questionId :: string
  questionContent :: string
  selectedOption :: string
  selectedOptionId :: js_value
  correctOption :: string
  correctOptionId :: "string option"
  isCorrect :: bool

record score_result =
  score :: nat
  correctCount :: nat
  errorCount :: int
  gradedAnswers :: "graded_answer list"

text \<open>
  The answers are a plain JavaScript object used as a dictionary from question id to
  option id: a map holds its own properties, written by \<^verbatim>\<open>handleSelectOption\<close>. Reading
  \<^verbatim>\<open>answers[k]\<close> gives the own property when there is one; otherwise the lookup goes on
  to \<^verbatim>\<open>Object.prototype\<close>, whose properties are those of the ECMAScript standard.
\<close>

type_synonym answers = "string \<rightharpoonup> string"

definition Object_prototype_names :: "string list" where
  "Object_prototype_names =
     [''constructor'', ''__defineGetter__'', ''__defineSetter__'', ''hasOwnProperty'',
      ''__lookupGetter__'', ''__lookupSetter__'', ''isPrototypeOf'', ''propertyIsEnumerable'',
      ''toString'', ''valueOf'', ''__proto__'', ''toLocaleString'']"

definition js_get :: "answers \<Rightarrow> string \<Rightarrow> js_value" where
  \<comment> \<open>\<^verbatim>\<open>answers[k]\<close>\<close>
  "js_get answers k =
     (case answers k of
        Some v \<Rightarrow> Text v
      | None \<Rightarrow> if k \<in> set Object_prototype_names then Member k else Nullish)"

subsection \<open>handleSelectOption\<close>

definition handleSelectOption :: "string \<Rightarrow> string \<Rightarrow> answers \<Rightarrow> answers" where
  \<comment> \<open>\<^verbatim>\<open>setAnswers(prev => ({ ...prev, [questionId]: optionId }))\<close>\<close>
  "handleSelectOption qid optionId prev = prev(qid \<mapsto> optionId)"

subsection \<open>calculateScore\<close>

text \<open>
  The run is instrumented: beside its results it yields the list of its steps, a
  \<open>Callback k\<close> for each call of the callback of \<^verbatim>\<open>map\<close> (on the question at index \<open>k\<close>)
  and a \<open>Probe k j\<close> for each call of a predicate of \<^verbatim>\<open>find\<close> (on option \<open>j\<close> of that
  question).
\<close>

datatype event = is_Callback: Callback nat | Probe nat nat

definition or_else :: "string option \<Rightarrow> string \<Rightarrow> string" where
  \<comment> \<open>\<^verbatim>\<open>s || d\<close> on a string that may be undefined: the empty string is falsy\<close>
  "or_else s d = (case s of None \<Rightarrow> d | Some v \<Rightarrow> if v = [] then d else v)"

definition or_null :: "string option \<Rightarrow> string option" where
  \<comment> \<open>\<^verbatim>\<open>s || null\<close> on a string that may be undefined\<close>
  "or_null s = (case s of None \<Rightarrow> None | Some v \<Rightarrow> if v = [] then None else Some v)"

definition value_or_null :: "js_value \<Rightarrow> js_value" where
  \<comment> \<open>\<^verbatim>\<open>v || null\<close>: the empty string is falsy, a function or an object is truthy\<close>
  "value_or_null v = (case v of Text x \<Rightarrow> if x = [] then Nullish else Text x | _ \<Rightarrow> v)"

definition id_value :: "question_option option \<Rightarrow> js_value" where
  \<comment> \<open>\<^verbatim>\<open>opt?.id\<close>\<close>
  "id_value opt = (case opt of None \<Rightarrow> Nullish | Some x \<Rightarrow> Text (opt_id x))"

fun js_find :: "('a \<Rightarrow> bool) \<Rightarrow> 'a list \<Rightarrow> 'a option \<times> nat" where
  \<comment> \<open>\<^verbatim>\<open>Array.prototype.find\<close>: the first element the predicate holds of, and the number
      of elements the predicate was called on\<close>
  "js_find p [] = (None, 0)"
| "js_find p (x # xs) =
     (if p x then (Some x, 1) else (case js_find p xs of (r, n) \<Rightarrow> (r, Suc n)))"

definition find_opt ::
  "(question_option \<Rightarrow> bool) \<Rightarrow> question \<Rightarrow> question_option option \<times> nat" where
  \<comment> \<open>\<^verbatim>\<open>q.question_options?.find(p)\<close>\<close>
  "find_opt p q = (case question_options q of None \<Rightarrow> (None, 0) | Some os \<Rightarrow> js_find p os)"

definition option_count :: "question \<Rightarrow> nat" where
  \<comment> \<open>the length of \<^verbatim>\<open>q.question_options\<close>, 0 when it is undefined\<close>
  "option_count q = (case question_options q of None \<Rightarrow> 0 | Some os \<Rightarrow> length os)"

definition grade ::
  "answers \<Rightarrow> question \<Rightarrow> nat \<Rightarrow> nat \<Rightarrow> graded_answer \<times> nat \<times> event list" where
  \<comment> \<open>the callback of \<^verbatim>\<open>test.questions.map\<close> (lines 88 to 112); the last argument and
      the second result are the captured variable \<^verbatim>\<open>correctCount\<close>, the third result
      the steps of this call\<close>
  "grade answers q idx cnt =
     (let selectedOptId = js_get answers (q_id q);
          (correctOpt, n1) = find_opt is_correct q;
          (selectedOpt, n2) = find_opt (\<lambda>opt. Text (opt_id opt) = selectedOptId) q;
          correct = (selectedOptId \<noteq> Nullish \<and> selectedOptId = id_value correctOpt)
      in (\<lparr> number = idx + 1,
            questionId = q_id q,
            questionContent = q_content q,
            selectedOption = or_else (Option.bind selectedOpt key) ''-'',
            selectedOptionId = value_or_null selectedOptId,
            correctOption = or_else (Option.bind correctOpt key) ''?'',
            correctOptionId = or_null (map_option opt_id correctOpt),
            isCorrect = correct \<rparr>,
          if correct then cnt + 1 else cnt,
          Callback idx # map (Probe idx) [0..<n1] @ map (Probe idx) [0..<n2]))"

fun map_questions ::
  "answers \<Rightarrow> question list \<Rightarrow> nat \<Rightarrow> nat \<Rightarrow> graded_answer list \<times> nat \<times> event list" where
  \<comment> \<open>\<^verbatim>\<open>Array.prototype.map\<close> running the callback from index \<open>idx\<close> on\<close>
  "map_questions answers [] idx cnt = ([], cnt, [])"
| "map_questions answers (q # qs) idx cnt =
     (case grade answers q idx cnt of (g, cnt1, steps) \<Rightarrow>
        (case map_questions answers qs (idx + 1) cnt1 of (gs, cnt2, rest) \<Rightarrow>
           (g # gs, cnt2, steps @ rest)))"

definition calculateScore :: "test option \<Rightarrow> answers \<Rightarrow> score_result" where
  "calculateScore t answers =
     (case t of
        None \<Rightarrow> \<lparr> score = 0, correctCount = 0, errorCount = 0, gradedAnswers = [] \<rparr>
      | Some tst \<Rightarrow>
         (case questions tst of
            None \<Rightarrow> \<lparr> score = 0, correctCount = 0, errorCount = 0, gradedAnswers = [] \<rparr>
          | Some qs \<Rightarrow>
             (let totalQuestions = length qs;
                  (graded, cnt, steps) = map_questions answers qs 0 0
              in \<lparr> score = (if totalQuestions > 0 then percent cnt totalQuestions else 0),
                   correctCount = cnt,
                   errorCount = int totalQuestions - int cnt,
                   gradedAnswers = graded \<rparr>)))"

definition calculateScore_steps :: "test option \<Rightarrow> answers \<Rightarrow> event list" where
  \<comment> \<open>the steps of the run whose results \<open>calculateScore\<close> gives\<close>
  "calculateScore_steps t answers =
     (case t of
        None \<Rightarrow> []
      | Some tst \<Rightarrow>
         (case questions tst of
            None \<Rightarrow> []
          | Some qs \<Rightarrow> snd (snd (map_questions answers qs 0 0))))"

fun map_run ::
  "answers \<Rightarrow> question list \<Rightarrow> nat \<Rightarrow> nat \<Rightarrow> nat \<Rightarrow>
     (graded_answer list \<times> nat \<times> event list) option" where
  \<comment> \<open>the loop inside \<^verbatim>\<open>Array.prototype.map\<close> (\<^verbatim>\<open>while (k < len)\<close>, one call of the
      callback and \<^verbatim>\<open>k++\<close>) with at most \<open>fuel\<close> iterations; \<open>None\<close> when they do not
      bring \<open>k\<close> to the length\<close>
  "map_run answers qs 0 k cnt = (if k < length qs then None else Some ([], cnt, []))"
| "map_run answers qs (Suc fuel) k cnt =
     (if k < length qs then
        (case grade answers (qs ! k) k cnt of (g, cnt1, steps) \<Rightarrow>
           (case map_run answers qs fuel (k + 1) cnt1 of
              None \<Rightarrow> None
            | Some (gs, cnt2, rest) \<Rightarrow> Some (g # gs, cnt2, steps @ rest)))
      else Some ([], cnt, []))"

definition loaded_questions :: "test option \<Rightarrow> question list" where
  \<comment> \<open>the array \<^verbatim>\<open>test.questions\<close> that \<^verbatim>\<open>calculateScore\<close> goes through; empty where the
      guard of line 83 returns at once\<close>
  "loaded_questions t =
     (case t of None \<Rightarrow> []
      | Some tst \<Rightarrow> (case questions tst of None \<Rightarrow> [] | Some qs \<Rightarrow> qs))"

abbreviation matches_correct_option :: "answers \<Rightarrow> question \<Rightarrow> bool" where
  \<comment> \<open>an option id is recorded for the question and it is the id of the option that
      \<^verbatim>\<open>find(o => o.is_correct)\<close> returns\<close>
  "matches_correct_option a q \<equiv>
     (\<exists>s os x. a (q_id q) = Some s \<and> question_options q = Some os \<and>
        find is_correct os = Some x \<and> s = opt_id x)"

subsection \<open>Array.prototype.sort with a comparator\<close>

text \<open>
  The comparator returns a number; \<open>None\<close> stands for \<^verbatim>\<open>NaN\<close>, which \<^verbatim>\<open>sort\<close> takes as
  \<open>+0\<close>. The sort is stable (ECMAScript 2019), so for a consistent comparator its result
  is the one of inserting the elements from the right, each before the first element it
  does not come after.
\<close>

type_synonym js_number = "int option"

definition js_sub :: "int option \<Rightarrow> int option \<Rightarrow> js_number" where
  \<comment> \<open>\<^verbatim>\<open>x - y\<close> on numbers that may be \<^verbatim>\<open>undefined\<close> or \<^verbatim>\<open>NaN\<close>\<close>
  "js_sub x y = (case x of None \<Rightarrow> None | Some m \<Rightarrow> (case y of None \<Rightarrow> None | Some n \<Rightarrow> Some (m - n)))"

definition sort_order :: "js_number \<Rightarrow> int" where
  "sort_order v = (case v of None \<Rightarrow> 0 | Some n \<Rightarrow> n)"

fun js_insort :: "('a \<Rightarrow> 'a \<Rightarrow> js_number) \<Rightarrow> 'a \<Rightarrow> 'a list \<Rightarrow> 'a list" where
  "js_insort cmp x [] = [x]"
| "js_insort cmp x (y # ys) =
     (if sort_order (cmp x y) \<le> 0 then x # y # ys else y # js_insort cmp x ys)"

definition js_sort :: "('a \<Rightarrow> 'a \<Rightarrow> js_number) \<Rightarrow> 'a list \<Rightarrow> 'a list" where
  "js_sort cmp xs = foldr (js_insort cmp) xs []"

subsection \<open>initExam\<close>

text \<open>
  The answer of the query of lines 40 to 53: the test with its \<^verbatim>\<open>test_questions\<close> rows,
  each holding \<^verbatim>\<open>weight\<close>, \<^verbatim>\<open>order_index\<close> and the joined question. The joined question
  is \<open>None\<close> when the service returns \<^verbatim>\<open>null\<close> for it.
\<close>

record question_row =
  row_id :: string
  row_content :: string
  row_difficulty :: string
  row_image_url :: "string option"
  row_deleted :: bool
  row_question_options :: "question_option list"

record test_question_row =
  tq_weight :: int
  tq_order_index :: int
  tq_questions :: "question_row option"

record test_data =
  td_id :: string
  td_title :: string
  test_questions :: "test_question_row list option"

datatype exam_error = QueryError | TypeError

definition flatten_question ::
  "(string \<Rightarrow> string \<Rightarrow> int) \<Rightarrow> test_question_row \<Rightarrow> exam_error + question" where
  \<comment> \<open>the callback of line 58: \<^verbatim>\<open>{...tq.questions, weight: tq.weight, question_options: ...sort(...)}\<close>.
      The object gets the properties of the joined question, \<^verbatim>\<open>weight\<close> and the sorted
      options; \<^verbatim>\<open>tq.order_index\<close> is not copied, so \<^verbatim>\<open>order_index\<close> of the result is
      undefined. \<^verbatim>\<open>localeCompare\<close> is the host's collation, a parameter.\<close>
  "flatten_question localeCompare tq =
     (case tq_questions tq of
        None \<Rightarrow> Inl TypeError
      | Some r \<Rightarrow> Inr
          \<lparr> q_id = row_id r,
            q_content = row_content r,
            difficulty = row_difficulty r,
            image_url = row_image_url r,
            deleted = row_deleted r,
            weight = tq_weight tq,
            order_index = None,
            question_options = Some
              (js_sort (\<lambda>x y. Some (localeCompare (or_else (key x) []) (or_else (key y) [])))
                 (row_question_options r)) \<rparr>)"

fun map_flatten ::
  "(string \<Rightarrow> string \<Rightarrow> int) \<Rightarrow> test_question_row list \<Rightarrow> exam_error + question list" where
  \<comment> \<open>\<^verbatim>\<open>test_questions.map\<close>: the first callback that throws ends the loop\<close>
  "map_flatten localeCompare [] = Inr []"
| "map_flatten localeCompare (tq # tqs) =
     (case flatten_question localeCompare tq of
        Inl e \<Rightarrow> Inl e
      | Inr q \<Rightarrow> (case map_flatten localeCompare tqs of
                    Inl e \<Rightarrow> Inl e
                  | Inr qs \<Rightarrow> Inr (q # qs)))"

datatype 'a reply = Data 'a | Failed

definition initExam :: "(string \<Rightarrow> string \<Rightarrow> int) \<Rightarrow> test_data reply \<Rightarrow> exam_error + test" where
  \<comment> \<open>lines 55 to 66: from the answer of the query to the value given to \<^verbatim>\<open>setTest\<close>;
      \<open>Inl\<close> is the \<^verbatim>\<open>catch\<close> branch, which leaves \<^verbatim>\<open>test\<close> null\<close>
  "initExam localeCompare answer =
     (case answer of
        Failed \<Rightarrow> Inl QueryError
      | Data testData \<Rightarrow>
          (case test_questions testData of
             None \<Rightarrow> Inr \<lparr> test_id = td_id testData, title = td_title testData, questions = None \<rparr>
           | Some tqs \<Rightarrow>
               (case map_flatten localeCompare tqs of
                  Inl e \<Rightarrow> Inl e
                | Inr qs \<Rightarrow> Inr
                    \<lparr> test_id = td_id testData, title = td_title testData,
                      questions = Some
                        (js_sort (\<lambda>x y. js_sub (order_index x) (order_index y))
                           (filter (\<lambda>q. \<not> deleted q) qs)) \<rparr>)))"

section \<open>The dashboard\<close>

text \<open>
  \<^verbatim>\<open>new Date(string)\<close> is the host's parser, a parameter \<open>Date\<close>: the time value in
  milliseconds, \<open>None\<close> for an invalid date, whose comparisons are all false. The
  argument \<open>now\<close> of \<open>getTestStatus\<close> is the time value of the \<^verbatim>\<open>new Date()\<close> of line 109,
  read at each call.
\<close>

record TestRelease =
  rel_id :: string
  rel_test_id :: string
  start_time :: string
  end_time :: string

record TestResult =
  res_id :: string
  test_release_id :: "string option"

definition js_lt :: "int option \<Rightarrow> int option \<Rightarrow> bool" where
  \<comment> \<open>\<^verbatim>\<open>x < y\<close> on time values\<close>
  "js_lt x y = (case x of None \<Rightarrow> False | Some m \<Rightarrow> (case y of None \<Rightarrow> False | Some n \<Rightarrow> m < n))"

definition getTestStatus ::
  "(string \<Rightarrow> int option) \<Rightarrow> int \<Rightarrow> TestResult list \<Rightarrow> TestRelease \<Rightarrow> string" where
  "getTestStatus Date now results r =
     (let start = Date (start_time r);
          end' = Date (end_time r);
          resultExists = list_ex (\<lambda>res. test_release_id res = Some (rel_id r)) results
      in if resultExists then ''completed''
         else if js_lt (Some now) start then ''upcoming''
         else if js_lt end' (Some now) then ''expired''
         else ''active'')"

text \<open>
  \<^verbatim>\<open>releases.filter(r => getTestStatus(r) === status)\<close>. Every call of
  \<^verbatim>\<open>getTestStatus\<close> reads \<^verbatim>\<open>new Date()\<close> anew: \<open>clock i\<close> is the \<open>i\<close>-th reading of one
  rendering, and the call for the first release of the list below takes reading \<open>i\<close>.
\<close>

fun filter_status ::
  "(string \<Rightarrow> int option) \<Rightarrow> (nat \<Rightarrow> int) \<Rightarrow> TestResult list \<Rightarrow> string \<Rightarrow> nat \<Rightarrow>
     TestRelease list \<Rightarrow> TestRelease list" where
  "filter_status Date clock results status i [] = []"
| "filter_status Date clock results status i (r # rs) =
     (if getTestStatus Date (clock i) results r = status
      then r # filter_status Date clock results status (i + 1) rs
      else filter_status Date clock results status (i + 1) rs)"

text \<open>
  Lines 163 to 166 build the four lists one after the other, each by a pass over the
  releases, so their calls take the readings from \<open>0\<close>, \<open>length releases\<close>,
  \<open>2 * length releases\<close> and \<open>3 * length releases\<close> on.
\<close>

definition activeTests ::
  "(string \<Rightarrow> int option) \<Rightarrow> (nat \<Rightarrow> int) \<Rightarrow> TestResult list \<Rightarrow> TestRelease list \<Rightarrow> TestRelease list" where
  "activeTests Date clock results releases =
     filter_status Date clock results ''active'' 0 releases"

definition upcomingTests ::
  "(string \<Rightarrow> int option) \<Rightarrow> (nat \<Rightarrow> int) \<Rightarrow> TestResult list \<Rightarrow> TestRelease list \<Rightarrow> TestRelease list" where
  "upcomingTests Date clock results releases =
     js_sort (\<lambda>x y. js_sub (Date (start_time x)) (Date (start_time y)))
       (filter_status Date clock results ''upcoming'' (length releases) releases)"

definition completedTests ::
  "(string \<Rightarrow> int option) \<Rightarrow> (nat \<Rightarrow> int) \<Rightarrow> TestResult list \<Rightarrow> TestRelease list \<Rightarrow> TestRelease list" where
  "completedTests Date clock results releases =
     filter_status Date clock results ''completed'' (2 * length releases) releases"

definition expiredTests ::
  "(string \<Rightarrow> int option) \<Rightarrow> (nat \<Rightarrow> int) \<Rightarrow> TestResult list \<Rightarrow> TestRelease list \<Rightarrow> TestRelease list" where
  "expiredTests Date clock results releases =
     filter_status Date clock results ''expired'' (3 * length releases) releases"

section \<open>The application shell\<close>

subsection \<open>State and the remote service\<close>

record auth_user =
  uid :: string

record auth_session =
  user :: "auth_user option"

text \<open>
  The React state of \<^verbatim>\<open>App\<close> that the login sequence touches, the two refs
  \<^verbatim>\<open>loginProcessingRef.current\<close> and \<^verbatim>\<open>profileResolvedRef.current\<close>, and a log of the
  operations the sequence awaits, in order.
\<close>

datatype awaited = Sleep nat | GetSession | RaceFetchRole nat

record app_state =
  session :: "auth_session option"
  userRole :: string
  authLoading :: bool
  loadingMessage :: string
  loginProcessing :: bool
  profileResolved :: bool
  awaits :: "awaited list"

record user_rule_row =
  rule_name :: "string option"

datatype relation = RelArray "user_rule_row list" | RelObject user_rule_row | RelOther

record app_user =
  user_rules :: "relation option"
  user_rule :: "relation option"

text \<open>
  What the service answers: a query yields a row, no row, an error in its result, or
  throws; \<^verbatim>\<open>getSession\<close> resolves to a session (or \<^verbatim>\<open>null\<close>) or rejects, the \<open>i\<close>-th
  call of the sequence getting \<open>getSession env i\<close>; and either the role fetch or the
  timer of \<^verbatim>\<open>Promise.race\<close> settles first.
\<close>

datatype query_answer = Row app_user | NoRow | QueryFailed | Throws

datatype session_answer = Resolved "auth_session option" | Rejected

datatype race_winner = FetchFirst | TimerFirst

record env =
  getSession :: "nat \<Rightarrow> session_answer"
  single :: query_answer
  maybeSingle :: query_answer
  winner :: race_winner

subsection \<open>fetchRole\<close>

definition extractRoleFromAppUser :: "app_user option \<Rightarrow> string option" where
  "extractRoleFromAppUser appUser =
     (case appUser of
        None \<Rightarrow> None
      | Some u \<Rightarrow>
          (case (case user_rules u of Some rel \<Rightarrow> Some rel | None \<Rightarrow> user_rule u) of
             Some (RelArray rows) \<Rightarrow> (case rows of [] \<Rightarrow> None | row # _ \<Rightarrow> rule_name row)
           | Some (RelObject row) \<Rightarrow> rule_name row
           | _ \<Rightarrow> None))"

definition resolve_role :: "app_user \<Rightarrow> app_state \<Rightarrow> app_state" where
  \<comment> \<open>lines 151 to 158; an empty role name is falsy\<close>
  "resolve_role appUser s =
     (let role = extractRoleFromAppUser (Some appUser)
      in s\<lparr> userRole := (case role of None \<Rightarrow> ''Student''
                          | Some name \<Rightarrow> if name = [] then ''Student'' else name),
            profileResolved := True \<rparr>)"

definition fetchRole :: "bool \<Rightarrow> env \<Rightarrow> app_state \<Rightarrow> app_state" where
  \<comment> \<open>the first argument says whether a client is configured\<close>
  "fetchRole client env s =
     (if \<not> client then s\<lparr> userRole := ''Student'' \<rparr>
      else case single env of
             Throws \<Rightarrow> s
           | QueryFailed \<Rightarrow>
               (case maybeSingle env of
                  Row appUser \<Rightarrow> resolve_role appUser s
                | _ \<Rightarrow> s)
           | NoRow \<Rightarrow> s
           | Row appUser \<Rightarrow> resolve_role appUser s)"

subsection \<open>handleLoginSuccess\<close>

definition await :: "awaited \<Rightarrow> app_state \<Rightarrow> app_state" where
  "await x s = s\<lparr> awaits := awaits s @ [x] \<rparr>"

definition session_user :: "auth_session option \<Rightarrow> auth_user option" where
  \<comment> \<open>\<^verbatim>\<open>session?.user\<close>\<close>
  "session_user sess = (case sess of None \<Rightarrow> None | Some x \<Rightarrow> user x)"

datatype poll_result = Threw app_state | Got "auth_session option" app_state

function poll :: "env \<Rightarrow> nat \<Rightarrow> app_state \<Rightarrow> poll_result" where
  \<comment> \<open>the loop of lines 175 to 183, from index \<open>i\<close>; \<open>Threw\<close> when \<^verbatim>\<open>getSession\<close> rejects\<close>
  "poll env i s =
     (if i < 3 then
        (case getSession env i of
           Rejected \<Rightarrow> Threw (await GetSession s)
         | Resolved sess \<Rightarrow>
             if session_user sess \<noteq> None then Got sess (await GetSession s)
             else poll env (i + 1) (await (Sleep 300) (await GetSession s)))
      else Got None s)"
  by pat_completeness auto
termination
  by (relation "measure (\<lambda>(env, i, s). 3 - i)") auto

declare poll.simps [simp del]

definition finish :: "app_state \<Rightarrow> app_state" where
  \<comment> \<open>\<^verbatim>\<open>setAuthLoading(false); loginProcessingRef.current = false;\<close>\<close>
  "finish s = s\<lparr> authLoading := False, loginProcessing := False \<rparr>"

definition poll_state :: "poll_result \<Rightarrow> app_state" where
  \<comment> \<open>the state the loop leaves, however it ends\<close>
  "poll_state r = (case r of Threw s \<Rightarrow> s | Got c s \<Rightarrow> s)"

definition handleLoginSuccess :: "bool \<Rightarrow> env \<Rightarrow> app_state \<Rightarrow> app_state" where
  \<comment> \<open>the first argument says whether a client is configured\<close>
  "handleLoginSuccess client env s =
     (if loginProcessing s then s
      else
        let s1 = s\<lparr> loginProcessing := True, authLoading := True,
                    loadingMessage := ''Verificando Credenciais...'' \<rparr>
        in if client then
             (case poll env 0 (await (Sleep 500) s1) of
                Threw s2 \<Rightarrow> finish s2
              | Got currentSession s2 \<Rightarrow>
                  if session_user currentSession \<noteq> None then
                    let s3 = s2\<lparr> session := currentSession,
                                loadingMessage := ''Carregando Perfil...'' \<rparr>;
                        s4 = await (RaceFetchRole 5000) s3;
                        s5 = (case winner env of
                                FetchFirst \<Rightarrow> fetchRole client env s4
                              | TimerFirst \<Rightarrow> s4);
                        s6 = s5\<lparr> loadingMessage := ''Preparando Ambiente...'' \<rparr>
                    in finish (await (Sleep 300) s6)
                  else finish s2)
           else finish s1)"

section \<open>Sample data\<close>

text \<open>A sample exam of three questions, the last one without an option list.\<close>

definition sample_questions :: "question list" where
  "sample_questions =
     [\<lparr> q_id = ''q1'', q_content = ''2 + 2'', difficulty = ''easy'', image_url = None,
         deleted = False, weight = 1, order_index = None,
         question_options = Some
           [\<lparr> opt_id = ''o1'', opt_content = ''4'', key = Some ''A'', is_correct = True \<rparr>,
            \<lparr> opt_id = ''o2'', opt_content = ''5'', key = Some ''B'', is_correct = False \<rparr>] \<rparr>,
      \<lparr> q_id = ''q2'', q_content = ''3 * 3'', difficulty = ''easy'', image_url = None,
         deleted = False, weight = 1, order_index = None,
         question_options = Some
           [\<lparr> opt_id = ''o3'', opt_content = ''6'', key = Some ''A'', is_correct = False \<rparr>,
            \<lparr> opt_id = ''o4'', opt_content = ''9'', key = Some ''B'', is_correct = True \<rparr>] \<rparr>,
      \<lparr> q_id = ''q3'', q_content = ''7 - 1'', difficulty = ''hard'', image_url = None,
         deleted = False, weight = 2, order_index = None,
         question_options = None \<rparr>]"

definition sample_test :: test where
  "sample_test = \<lparr> test_id = ''t1'', title = ''Arithmetic'', questions = Some sample_questions \<rparr>"

definition sample_answers :: answers where
  \<comment> \<open>the first question answered rightly, the second wrongly, the third not at all\<close>
  "sample_answers = [''q1'' \<mapsto> ''o1'', ''q2'' \<mapsto> ''o3'']"

text \<open>
  Two rows of \<^verbatim>\<open>test_questions\<close> as the service may return them: the one with
  \<^verbatim>\<open>order_index\<close> 2 first.
\<close>

definition sample_rows :: "test_question_row list" where
  "sample_rows =
     [\<lparr> tq_weight = 1, tq_order_index = 2,
         tq_questions = Some \<lparr> row_id = ''qb'', row_content = ''second'', row_difficulty = ''easy'',
           row_image_url = None, row_deleted = False, row_question_options = [] \<rparr> \<rparr>,
      \<lparr> tq_weight = 1, tq_order_index = 1,
         tq_questions = Some \<lparr> row_id = ''qa'', row_content = ''first'', row_difficulty = ''easy'',
           row_image_url = None, row_deleted = False, row_question_options = [] \<rparr> \<rparr>]"

definition sample_test_data :: test_data where
  "sample_test_data = \<lparr> td_id = ''t2'', td_title = ''Ordered'', test_questions = Some sample_rows \<rparr>"

definition byte_compare :: "string \<Rightarrow> string \<Rightarrow> int" where
  \<comment> \<open>a stand-in collation for the sample: the lengths compared\<close>
  "byte_compare x y = int (length x) - int (length y)"



text \<open>
  A dashboard with one release of each kind, a clock that stands at 5000 during the
  rendering and one that advances by a millisecond at each reading, and a release that
  starts at 5001.
\<close>

definition steady_clock :: "nat \<Rightarrow> int" where
  "steady_clock i = 5000"

definition ticking_clock :: "nat \<Rightarrow> int" where
  "ticking_clock i = 5000 + int i"


definition sample_Date :: "string \<Rightarrow> int option" where
  "sample_Date x =
     (if x = ''1970-01-01T00:00:01.000Z'' then Some 1000
      else if x = ''1970-01-01T00:00:05.001Z'' then Some 5001
      else if x = ''1970-01-01T00:00:02.000Z'' then Some 2000
      else if x = ''1970-01-01T00:00:08.000Z'' then Some 8000
      else if x = ''1970-01-01T00:00:09.000Z'' then Some 9000
      else None)"

definition expired_release :: TestRelease where
  "expired_release = \<lparr> rel_id = ''r1'', rel_test_id = ''t1'',
     start_time = ''1970-01-01T00:00:01.000Z'', end_time = ''1970-01-01T00:00:02.000Z'' \<rparr>"

definition active_release :: TestRelease where
  "active_release = \<lparr> rel_id = ''r2'', rel_test_id = ''t1'',
     start_time = ''1970-01-01T00:00:02.000Z'', end_time = ''1970-01-01T00:00:08.000Z'' \<rparr>"

definition upcoming_release :: TestRelease where
  "upcoming_release = \<lparr> rel_id = ''r3'', rel_test_id = ''t1'',
     start_time = ''1970-01-01T00:00:08.000Z'', end_time = ''1970-01-01T00:00:09.000Z'' \<rparr>"

definition completed_release :: TestRelease where
  "completed_release = \<lparr> rel_id = ''r4'', rel_test_id = ''t1'',
     start_time = ''1970-01-01T00:00:01.000Z'', end_time = ''1970-01-01T00:00:09.000Z'' \<rparr>"

definition starting_release :: TestRelease where
  "starting_release = \<lparr> rel_id = ''r5'', rel_test_id = ''t1'',
     start_time = ''1970-01-01T00:00:05.001Z'', end_time = ''1970-01-01T00:00:09.000Z'' \<rparr>"

definition sample_releases :: "TestRelease list" where
  "sample_releases = [upcoming_release, completed_release, expired_release, active_release]"

definition sample_results :: "TestResult list" where
  "sample_results = [\<lparr> res_id = ''x1'', test_release_id = Some ''r4'' \<rparr>,
                     \<lparr> res_id = ''x2'', test_release_id = None \<rparr>]"

text \<open>
  A service whose \<^verbatim>\<open>getSession\<close> finds the session at the second call, and the state of
  the shell before a login and while a login is being processed.
\<close>

definition sample_env :: env where
  "sample_env =
     \<lparr> getSession = (\<lambda>i. if i = 1 then Resolved (Some \<lparr> user = Some \<lparr> uid = ''u1'' \<rparr> \<rparr>)
                          else Resolved None),
       single = Row \<lparr> user_rules = Some (RelObject \<lparr> rule_name = Some ''Student'' \<rparr>),
                      user_rule = None \<rparr>,
       maybeSingle = NoRow,
       winner = FetchFirst \<rparr>"

definition idle_state :: app_state where
  "idle_state = \<lparr> session = None, userRole = ''Student'', authLoading = False,
     loadingMessage = ''Inicializando Sistema...'', loginProcessing = False,
     profileResolved = False, awaits = [] \<rparr>"

definition busy_state :: app_state where
  \<comment> \<open>an earlier call of \<^verbatim>\<open>handleLoginSuccess\<close> is still awaiting\<close>
  "busy_state = idle_state\<lparr> loginProcessing := True, authLoading := True,
     loadingMessage := ''Verificando Credenciais...'' \<rparr>"

section \<open>Properties of the score\<close>

subsection \<open>Numbers\<close>

text \<open>
  The operations round correctly: \<open>to_double\<close> returns a mantissa of 53 bits (between
  \<open>2 ^ 52\<close> and \<open>2 ^ 53\<close>) at most half a unit in the last place from the fraction,
  and the integer operations compute the reference: \<open>js_div\<close> and \<open>js_mul\<close> give
  \<open>binary64\<close> of the exact quotient and product, \<open>Math_round\<close> gives \<open>\<lfloor>x + 1/2\<rfloor>\<close>.
\<close>

lemma bitlen_bounds: "0 < n \<Longrightarrow> 2 ^ (bitlen n - 1) \<le> n \<and> n < 2 ^ bitlen n"
proof (induction n rule: bitlen.induct)
  case (1 n)
  show ?case
  proof (cases "n div 2 = 0")
    case True
    with "1.prems" have "n = 1" by (simp add: div_eq_0_iff) 
    then show ?thesis by (simp add: bitlen.simps)
  next
    case False
    then have ih: "2 ^ (bitlen (n div 2) - 1) \<le> n div 2 \<and> n div 2 < 2 ^ bitlen (n div 2)"
      using "1.IH" "1.prems" by simp
    have pos: "0 < bitlen (n div 2)"
      using False by (simp add: bitlen.simps [of "n div 2"])
    have b: "bitlen n = Suc (bitlen (n div 2))"
      using "1.prems" by (simp add: bitlen.simps [of n])
    have p: "(2::nat) ^ bitlen (n div 2) = 2 * 2 ^ (bitlen (n div 2) - 1)"
      using pos by (cases "bitlen (n div 2)") simp_all
    have lo: "(2::nat) ^ (bitlen n - 1) \<le> n"
    proof -
      have "(2::nat) ^ (bitlen n - 1) = 2 * 2 ^ (bitlen (n div 2) - 1)"
        using b p by simp
      also have "\<dots> \<le> 2 * (n div 2)" using ih by simp
      also have "\<dots> \<le> n" by simp
      finally show ?thesis .
    qed
    have hi: "n < 2 ^ bitlen n"
    proof -
      have "n < 2 * (n div 2) + 2" by presburger
      also have "\<dots> \<le> 2 * 2 ^ bitlen (n div 2)" using ih by simp
      also have "\<dots> = 2 ^ bitlen n" using b by simp
      finally show ?thesis .
    qed
    show ?thesis using lo hi by simp
  qed
qed

lemma round_half_even_error:
  assumes "0 < d"
  shows "\<bar>real (round_half_even n d) - real n / real d\<bar> \<le> 1 / 2"
proof -
  let ?q = "n div d" and ?r = "n mod d"
  have n: "real n = real ?q * real d + real ?r"
    by (metis of_nat_add of_nat_mult div_mult_mod_eq)
  have r: "?r < d" using assms by simp
  have frac: "real n / real d = real ?q + real ?r / real d"
    using assms by (simp add: n field_simps)
  consider "2 * ?r < d" | "d < 2 * ?r" | "2 * ?r = d" by linarith
  then show ?thesis
  proof cases
    case 1
    then have "round_half_even n d = ?q" by (simp add: round_half_even_def Let_def)
    moreover have "real ?r / real d \<le> 1 / 2" using 1 assms by (simp add: field_simps)
    ultimately show ?thesis using frac by simp
  next
    case 2
    then have "round_half_even n d = ?q + 1" by (simp add: round_half_even_def Let_def)
    moreover have "1 / 2 \<le> real ?r / real d" using 2 assms by (simp add: field_simps)
    moreover have "real ?r / real d \<le> 1" using r assms by (simp add: field_simps)
    ultimately show ?thesis using frac by simp
  next
    case 3
    then have "real ?r / real d = 1 / 2" using assms by (simp add: field_simps)
    moreover have "round_half_even n d = ?q \<or> round_half_even n d = ?q + 1"
      using 3 by (simp add: round_half_even_def Let_def)
    ultimately show ?thesis using frac by auto
  qed
qed

lemma powi_nonneg: "0 \<le> k \<Longrightarrow> (2::real) powi k = 2 ^ nat k"
  by (simp add: power_int_def)

lemma powi_neg: "k < 0 \<Longrightarrow> (2::real) powi k = 1 / 2 ^ nat (- k)"
  by (simp add: power_int_def field_simps)

lemma ge_pow2_iff:
  assumes "0 < d"
  shows "ge_pow2 n d k \<longleftrightarrow> 2 powi k \<le> real n / real d"
proof (cases "0 \<le> k")
  case True
  have "(d * 2 ^ nat k \<le> n) = (real (d * 2 ^ nat k) \<le> real n)"
    by (simp only: of_nat_le_iff)
  also have "\<dots> = (real d * 2 ^ nat k \<le> real n)" by simp
  also have "\<dots> = (2 ^ nat k \<le> real n / real d)"
    using assms by (simp add: field_simps)
  finally show ?thesis using True by (simp add: ge_pow2_def powi_nonneg)
next
  case False
  have "(d \<le> n * 2 ^ nat (- k)) = (real d \<le> real (n * 2 ^ nat (- k)))"
    by (simp only: of_nat_le_iff)
  also have "\<dots> = (real d \<le> real n * 2 ^ nat (- k))" by simp
  also have "\<dots> = (1 / 2 ^ nat (- k) \<le> real n / real d)"
    using assms by (simp add: field_simps)
  finally show ?thesis using False by (simp add: ge_pow2_def powi_neg)
qed

lemma bitlen_real_bounds:
  assumes "0 < n"
  shows "2 powi (int (bitlen n) - 1) \<le> real n" "real n < 2 powi (int (bitlen n))"
proof -
  from bitlen_bounds [OF assms] have lo: "2 ^ (bitlen n - 1) \<le> n" and hi: "n < 2 ^ bitlen n"
    by simp_all
  obtain b where b: "bitlen n = Suc b"
    using assms by (simp add: bitlen.simps [of n])
  have "real (2 ^ b) \<le> real n" using lo b by (simp only: of_nat_le_iff diff_Suc_1)
  then have "(2::real) powi (int b) \<le> real n" by simp
  moreover have "int (bitlen n) - 1 = int b" using b by simp
  ultimately show "2 powi (int (bitlen n) - 1) \<le> real n" by (simp only:)
  have "real n < real (2 ^ bitlen n)" using hi by (simp only: of_nat_less_iff)
  then show "real n < 2 powi (int (bitlen n))" by simp
qed

lemma powi_split: "(2::real) powi (a + b) = 2 powi a * 2 powi b"
  by (rule power_int_add) simp

lemma ratio_bounds:
  assumes "0 < n" "0 < d"
  shows "2 powi (int (bitlen n) - int (bitlen d) - 1) < real n / real d"
    and "real n / real d < 2 powi (int (bitlen n) - int (bitlen d) + 1)"
proof -
  let ?k = "int (bitlen n) - int (bitlen d)"
  note n = bitlen_real_bounds [OF assms(1)] and d = bitlen_real_bounds [OF assms(2)]
  have dpos: "0 < real d" using assms by simp
  have "2 powi (?k - 1) * real d < 2 powi (?k - 1) * 2 powi (int (bitlen d))"
    using d(2) by (intro mult_strict_left_mono) simp_all
  also have "\<dots> = 2 powi ((?k - 1) + int (bitlen d))"
    by (rule powi_split [symmetric])
  also have "(?k - 1) + int (bitlen d) = int (bitlen n) - 1" by simp
  also have "2 powi (int (bitlen n) - 1) \<le> real n" by (rule n(1))
  finally have "2 powi (?k - 1) * real d < real n" .
  then show "2 powi (?k - 1) < real n / real d"
    using dpos by (simp add: field_simps)
  have "real n < 2 powi (int (bitlen n))" by (rule n(2))
  also have "int (bitlen n) = (?k + 1) + (int (bitlen d) - 1)" by simp
  also have "(2::real) powi ((?k + 1) + (int (bitlen d) - 1)) = 2 powi (?k + 1) * 2 powi (int (bitlen d) - 1)"
    by (rule powi_split)
  also have "\<dots> \<le> 2 powi (?k + 1) * real d"
    using d(1) by (intro mult_left_mono) simp_all
  finally have "real n < 2 powi (?k + 1) * real d" .
  then show "real n / real d < 2 powi (?k + 1)"
    using dpos by (simp add: field_simps)
qed

lemma to_double_unfold:
  assumes "0 < n"
  shows "to_double n d =
    (let k = int (bitlen n) - int (bitlen d);
         e = (if ge_pow2 n d k then k else k - 1) - 52
     in (if 0 \<le> e then round_half_even n (d * 2 ^ nat e)
         else round_half_even (n * 2 ^ nat (- e)) d, e))"
  using assms by (simp add: to_double_def Let_def)

lemma to_double_shape:
  assumes "0 < n" "0 < d"
  shows "\<exists>l N D. 0 < D
    \<and> 2 powi l \<le> real n / real d \<and> real n / real d < 2 powi (l + 1)
    \<and> real N / real D = (real n / real d) / 2 powi (l - 52)
    \<and> to_double n d = (round_half_even N D, l - 52)"
proof -
  define x where "x = real n / real d"
  define k where "k = int (bitlen n) - int (bitlen d)"
  define l where "l = (if ge_pow2 n d k then k else k - 1)"
  define e where "e = l - 52"
  define N where "N = (if 0 \<le> e then n else n * 2 ^ nat (- e))"
  define D where "D = (if 0 \<le> e then d * 2 ^ nat e else d)"
  have td: "to_double n d = (round_half_even N D, e)"
    using assms(1) by (simp add: to_double_unfold Let_def N_def D_def e_def l_def k_def)
  have lo: "2 powi l \<le> x"
  proof (cases "ge_pow2 n d k")
    case True
    then show ?thesis using ge_pow2_iff [OF assms(2), of n k] by (simp add: l_def x_def)
  next
    case False
    then show ?thesis
      using ratio_bounds(1) [OF assms] by (simp add: l_def x_def k_def)
  qed
  have hi: "x < 2 powi (l + 1)"
  proof (cases "ge_pow2 n d k")
    case True
    then show ?thesis using ratio_bounds(2) [OF assms] by (simp add: l_def x_def k_def)
  next
    case False
    then show ?thesis using ge_pow2_iff [OF assms(2), of n k] by (simp add: l_def x_def)
  qed
  have Dpos: "0 < D" using assms(2) by (simp add: D_def)
  have ND: "real N / real D = x / 2 powi e"
  proof (cases "0 \<le> e")
    case True
    then show ?thesis using assms by (simp add: N_def D_def x_def powi_nonneg)
  next
    case False
    then show ?thesis using assms by (simp add: N_def D_def x_def powi_neg)
  qed
  show ?thesis
    using Dpos lo hi ND td unfolding x_def e_def by blast
qed

lemma floor_log2:
  assumes "2 powi l \<le> x" "x < 2 powi (l + 1)"
  shows "\<lfloor>log 2 x\<rfloor> = l"
proof -
  have pos: "0 < x" using assms(1) by (smt (verit) zero_less_power_int)
  have a: "log 2 (2 powi l) = real_of_int l" for l :: int
  proof -
    have "(2::real) powr real_of_int l = 2 powi l"
      by (rule powr_real_of_int') simp_all
    then have "log 2 (2 powi l) = log 2 (2 powr real_of_int l)" by simp
    then show ?thesis by simp
  qed
  have "log 2 (2 powi l) \<le> log 2 x"
    using assms(1) pos by (subst log_le_cancel_iff) simp_all
  moreover have "log 2 x < log 2 (2 powi (l + 1))"
    using assms(2) pos by (subst log_less_cancel_iff) simp_all
  ultimately have "real_of_int l \<le> log 2 x" "log 2 x < real_of_int l + 1"
    by (simp_all add: a)
  then show ?thesis by linarith
qed

lemma round_half_even_spec:
  assumes "0 < d"
  shows "int (round_half_even n d) = round_ties_even (real n / real d)"
proof -
  let ?q = "n div d" and ?r = "n mod d"
  have fl: "\<lfloor>real n / real d\<rfloor> = int ?q"
    by (rule floor_divide_of_nat_eq)
  have n: "real n = real ?q * real d + real ?r"
    by (metis of_nat_add of_nat_mult div_mult_mod_eq)
  have frac: "real n / real d - real_of_int (int ?q) = real ?r / real d"
    using assms by (simp add: n field_simps)
  have lt: "(real ?r / real d < 1 / 2) = (2 * ?r < d)"
  proof -
    have "(real ?r / real d < 1 / 2) = (real (2 * ?r) < real d)"
      using assms by (simp add: field_simps)
    then show ?thesis by (simp only: of_nat_less_iff)
  qed
  have gt: "(1 / 2 < real ?r / real d) = (d < 2 * ?r)"
  proof -
    have "(1 / 2 < real ?r / real d) = (real d < real (2 * ?r))"
      using assms by (simp add: field_simps)
    then show ?thesis by (simp only: of_nat_less_iff)
  qed
  show ?thesis
    unfolding round_ties_even_def round_half_even_def Let_def fl frac lt gt
    by simp
qed

lemma to_double_nearest:
  assumes "0 < n" "0 < d"
  shows "2 ^ 52 \<le> fst (to_double n d) \<and> fst (to_double n d) \<le> 2 ^ 53
    \<and> \<bar>double_value (to_double n d) - real n / real d\<bar> \<le> 2 powi (snd (to_double n d)) / 2"
proof -
  define x where "x = real n / real d"
  define k where "k = int (bitlen n) - int (bitlen d)"
  define l where "l = (if ge_pow2 n d k then k else k - 1)"
  define e where "e = l - 52"
  define N where "N = (if 0 \<le> e then n else n * 2 ^ nat (- e))"
  define D where "D = (if 0 \<le> e then d * 2 ^ nat e else d)"
  define m where "m = round_half_even N D"
  define y where "y = x / 2 powi e"
  have td: "to_double n d = (m, e)"
    using assms(1) by (simp add: to_double_unfold Let_def m_def N_def D_def e_def l_def k_def)
  have pe: "0 < (2::real) powi e" by simp
  have lo: "2 powi l \<le> x" and hi: "x < 2 powi (l + 1)"
  proof -
    show "2 powi l \<le> x"
    proof (cases "ge_pow2 n d k")
      case True
      then show ?thesis using ge_pow2_iff [OF assms(2), of n k] by (simp add: l_def x_def)
    next
      case False
      then show ?thesis
        using ratio_bounds(1) [OF assms] by (simp add: l_def x_def k_def)
    qed
    show "x < 2 powi (l + 1)"
    proof (cases "ge_pow2 n d k")
      case True
      then show ?thesis using ratio_bounds(2) [OF assms] by (simp add: l_def x_def k_def)
    next
      case False
      then show ?thesis using ge_pow2_iff [OF assms(2), of n k] by (simp add: l_def x_def)
    qed
  qed
  have "l = e + 52" by (simp add: e_def)
  then have "(2::real) powi l = 2 powi (e + 52)" by (rule arg_cong)
  also have "\<dots> = 2 powi e * 2 powi 52" by (rule powi_split)
  finally have l52: "(2::real) powi l = 2 powi e * 2 ^ 52" by simp
  have "l + 1 = e + 53" by (simp add: e_def)
  then have "(2::real) powi (l + 1) = 2 powi (e + 53)" by (rule arg_cong)
  also have "\<dots> = 2 powi e * 2 powi 53" by (rule powi_split)
  finally have l53: "(2::real) powi (l + 1) = 2 powi e * 2 ^ 53" by simp
  have ylo: "2 ^ 52 \<le> y"
    using lo pe unfolding l52 y_def by (simp add: field_simps)
  have yhi: "y < 2 ^ 53"
    using hi pe unfolding l53 y_def by (simp add: field_simps)
  have Dpos: "0 < D" using assms(2) by (simp add: D_def)
  have ND: "real N / real D = y"
  proof (cases "0 \<le> e")
    case True
    then show ?thesis using assms by (simp add: N_def D_def y_def x_def powi_nonneg)
  next
    case False
    then show ?thesis using assms by (simp add: N_def D_def y_def x_def powi_neg)
  qed
  have err: "\<bar>real m - y\<bar> \<le> 1 / 2"
    using round_half_even_error [OF Dpos, of N] by (simp add: m_def ND)
  have near: "y - 1 / 2 \<le> real m" "real m \<le> y + 1 / 2"
    using err by linarith+
  have mlo: "2 ^ 52 \<le> m"
  proof (rule ccontr)
    assume "\<not> 2 ^ 52 \<le> m"
    then have "m + 1 \<le> 2 ^ 52" by simp
    then have "real (m + 1) \<le> real (2 ^ 52)" by (simp only: of_nat_le_iff)
    then have "real m + 1 \<le> 2 ^ 52" by simp
    with near(1) ylo show False by linarith
  qed
  have mhi: "m \<le> 2 ^ 53"
  proof (rule ccontr)
    assume "\<not> m \<le> 2 ^ 53"
    then have "2 ^ 53 + 1 \<le> m" by simp
    then have "real (2 ^ 53 + 1) \<le> real m" by (simp only: of_nat_le_iff)
    then have "2 ^ 53 + 1 \<le> real m" by simp
    with near(2) yhi show False by linarith
  qed
  have "double_value (m, e) - x = 2 powi e * (real m - y)"
    using pe by (simp add: double_value_def y_def field_simps)
  then have "\<bar>double_value (m, e) - x\<bar> = 2 powi e * \<bar>real m - y\<bar>"
    using pe by (simp add: abs_mult)
  also have "\<dots> \<le> 2 powi e * (1 / 2)"
    using err pe by (intro mult_left_mono) simp_all
  finally have "\<bar>double_value (m, e) - x\<bar> \<le> 2 powi e / 2" by simp
  then show ?thesis using mlo mhi by (simp add: td x_def)
qed

lemma js_div_nearest:
  assumes "0 < a" "0 < b"
  shows "2 ^ 52 \<le> fst (js_div a b) \<and> fst (js_div a b) \<le> 2 ^ 53
    \<and> \<bar>double_value (js_div a b) - real a / real b\<bar> \<le> 2 powi (snd (js_div a b)) / 2"
  unfolding js_div_def by (rule to_double_nearest [OF assms])

lemma js_mul_nearest:
  assumes "0 < m" "0 < k"
  shows "2 ^ 52 \<le> fst (js_mul (m, e) k) \<and> fst (js_mul (m, e) k) \<le> 2 ^ 53
    \<and> \<bar>double_value (js_mul (m, e) k) - double_value (m, e) * real k\<bar>
        \<le> 2 powi (snd (js_mul (m, e) k)) / 2"
proof (cases "0 \<le> e")
  case True
  have v: "real (m * k * 2 ^ nat e) / real (1::nat) = double_value (m, e) * real k"
    using True by (simp add: double_value_def powi_nonneg)
  have jm: "js_mul (m, e) k = to_double (m * k * 2 ^ nat e) 1"
    using True by (simp add: js_mul_def)
  have pos: "0 < m * k * 2 ^ nat e" using assms by simp
  from to_double_nearest [OF pos zero_less_one] show ?thesis
    unfolding jm v .
next
  case False
  have v: "real (m * k) / real ((2::nat) ^ nat (- e)) = double_value (m, e) * real k"
    using False by (simp add: double_value_def powi_neg)
  have jm: "js_mul (m, e) k = to_double (m * k) (2 ^ nat (- e))"
    using False by (simp add: js_mul_def)
  have pos: "0 < m * k" "(0::nat) < 2 ^ nat (- e)" using assms by simp_all
  from to_double_nearest [OF pos] show ?thesis
    unfolding jm v .
qed

lemma to_double_spec:
  assumes "0 < d"
  shows "double_value (to_double n d) = binary64 (real n / real d)"
proof (cases "n = 0")
  case True
  then show ?thesis by (simp add: to_double_def double_value_def binary64_def)
next
  case False
  then have n: "0 < n" by simp
  from to_double_shape [OF n assms] obtain l N D where D: "0 < D"
    and lo: "2 powi l \<le> real n / real d" and hi: "real n / real d < 2 powi (l + 1)"
    and ND: "real N / real D = (real n / real d) / 2 powi (l - 52)"
    and td: "to_double n d = (round_half_even N D, l - 52)"
    by blast
  have pos: "0 < real n / real d" using n assms by simp
  have fl: "\<lfloor>log 2 (real n / real d)\<rfloor> = l" by (rule floor_log2 [OF lo hi])
  have "double_value (to_double n d)
      = real_of_int (int (round_half_even N D)) * 2 powi (l - 52)"
    by (simp add: td double_value_def)
  also have "\<dots> = real_of_int (round_ties_even ((real n / real d) / 2 powi (l - 52)))
      * 2 powi (l - 52)"
    by (simp only: round_half_even_spec [OF D] ND)
  also have "\<dots> = binary64 (real n / real d)"
    using pos by (simp add: binary64_def fl Let_def)
  finally show ?thesis .
qed

lemma js_div_spec: "0 < b \<Longrightarrow> double_value (js_div a b) = binary64 (real a / real b)"
  unfolding js_div_def by (rule to_double_spec)

lemma js_mul_spec: "double_value (js_mul x k) = binary64 (double_value x * real k)"
proof (cases x)
  case (Pair m e)
  show ?thesis
  proof (cases "0 \<le> e")
    case True
    have v: "real (m * k * 2 ^ nat e) / real (1::nat) = double_value (m, e) * real k"
      using True by (simp add: double_value_def powi_nonneg)
    have jm: "js_mul (m, e) k = to_double (m * k * 2 ^ nat e) 1"
      using True by (simp add: js_mul_def)
    from to_double_spec [OF zero_less_one, of "m * k * 2 ^ nat e"] show ?thesis
      unfolding Pair jm v .
  next
    case False
    have v: "real (m * k) / real ((2::nat) ^ nat (- e)) = double_value (m, e) * real k"
      using False by (simp add: double_value_def powi_neg)
    have jm: "js_mul (m, e) k = to_double (m * k) (2 ^ nat (- e))"
      using False by (simp add: js_mul_def)
    have pos: "(0::nat) < 2 ^ nat (- e)" by simp
    from to_double_spec [OF pos, of "m * k"] show ?thesis
      unfolding Pair jm v .
  qed
qed

lemma Math_round_floor: "int (Math_round x) = \<lfloor>double_value x + 1 / 2\<rfloor>"
proof (cases x)
  case (Pair m e)
  show ?thesis
  proof (cases "0 \<le> e")
    case True
    have "double_value (m, e) + 1 / 2 = real_of_int (int (m * 2 ^ nat e)) + 1 / 2"
      using True by (simp add: double_value_def powi_nonneg)
    then have "\<lfloor>double_value (m, e) + 1 / 2\<rfloor> = int (m * 2 ^ nat e)"
      by (simp only: floor_add_int [symmetric]) linarith
    then show ?thesis using True Pair by (simp add: Math_round_def)
  next
    case False
    have "double_value (m, e) + 1 / 2 = real (2 * m + 2 ^ nat (- e)) / real (2 * 2 ^ nat (- e))"
      using False by (simp add: double_value_def powi_neg field_simps)
    then have "\<lfloor>double_value (m, e) + 1 / 2\<rfloor> = int ((2 * m + 2 ^ nat (- e)) div (2 * 2 ^ nat (- e)))"
      by (simp only: floor_divide_of_nat_eq)
    then show ?thesis using False Pair by (simp add: Math_round_def)
  qed
qed

lemma percent_spec:
  assumes "0 < n"
  shows "int (percent c n) = \<lfloor>binary64 (binary64 (real c / real n) * 100) + 1 / 2\<rfloor>"
  unfolding percent_def Math_round_floor js_mul_spec js_div_spec [OF assms]
  by simp

lemma percent_none [simp]: "percent 0 n = 0"
  by (simp add: percent_def js_div_def js_mul_def to_double_def Math_round_def)

lemma bitlen_100_pow: "bitlen (100 * 2 ^ 52) = 59"
  by (simp add: bitlen.simps)

lemma bitlen_pow52: "bitlen (2 ^ 52) = 53"
  by (simp add: bitlen.simps)

lemma percent_all:
  assumes "0 < n"
  shows "percent n n = 100"
proof -
  have q: "round_half_even (n * 2 ^ 52) n = 2 ^ 52"
    using assms by (simp add: round_half_even_def)
  have d: "js_div n n = (2 ^ 52, - 52)"
    using assms q by (simp add: js_div_def to_double_def ge_pow2_def)
  have "to_double (2 ^ 52 * 100) (2 ^ 52) = (100 * 2 ^ 46, - 46)"
    by (simp add: to_double_def ge_pow2_def round_half_even_def bitlen.simps)
  then have m: "js_mul (js_div n n) 100 = (100 * 2 ^ 46, - 46)"
    using d by (simp add: js_mul_def)
  show ?thesis
    by (simp add: percent_def m Math_round_def)
qed

lemma percent_rounds_in_binary: "percent 23 40 = 57" "(200 * 23 + 40) div (2 * 40) = (58::nat)"
  by (simp_all add: percent_def js_mul_def js_div_def to_double_def Math_round_def ge_pow2_def
      round_half_even_def bitlen.simps Let_def)

subsection \<open>The callback and the loop\<close>

lemma js_find_fst: "fst (js_find p xs) = find p xs"
  by (induction xs) (auto split: prod.splits)

lemma js_find_calls: "snd (js_find p xs) \<le> length xs"
  by (induction xs) (auto split: prod.splits)

lemma find_opt_fst:
  "fst (find_opt p q) = (case question_options q of None \<Rightarrow> None | Some os \<Rightarrow> find p os)"
  by (simp add: find_opt_def js_find_fst split: option.splits)

lemma find_opt_calls: "snd (find_opt p q) \<le> option_count q"
  by (simp add: find_opt_def option_count_def js_find_calls split: option.splits)


lemma grade_unfold:
  "grade a q i c =
     (\<lparr> number = i + 1,
        questionId = q_id q,
        questionContent = q_content q,
        selectedOption =
          or_else (Option.bind (fst (find_opt (\<lambda>opt. Text (opt_id opt) = js_get a (q_id q)) q)) key) ''-'',
        selectedOptionId = value_or_null (js_get a (q_id q)),
        correctOption = or_else (Option.bind (fst (find_opt is_correct q)) key) ''?'',
        correctOptionId = or_null (map_option opt_id (fst (find_opt is_correct q))),
        isCorrect = (js_get a (q_id q) \<noteq> Nullish
                     \<and> js_get a (q_id q) = id_value (fst (find_opt is_correct q))) \<rparr>,
      if js_get a (q_id q) \<noteq> Nullish \<and> js_get a (q_id q) = id_value (fst (find_opt is_correct q))
      then c + 1 else c,
      Callback i # map (Probe i) [0..<snd (find_opt is_correct q)]
        @ map (Probe i) [0..<snd (find_opt (\<lambda>opt. Text (opt_id opt) = js_get a (q_id q)) q)])"
  by (simp add: grade_def Let_def split: prod.splits)

lemma fst_grade_cnt: "fst (grade a q i c) = fst (grade a q i 0)"
  by (simp add: grade_unfold)

lemma cnt_grade:
  "fst (snd (grade a q i c)) = (if isCorrect (fst (grade a q i 0)) then c + 1 else c)"
  by (simp add: grade_unfold)

lemma steps_grade_cnt: "snd (snd (grade a q i c)) = snd (snd (grade a q i 0))"
  by (simp add: grade_unfold)

lemma isCorrect_grade: "isCorrect (fst (grade a q i c)) = matches_correct_option a q"
proof (cases "a (q_id q)")
  case None
  then show ?thesis
    by (cases "fst (find_opt is_correct q)")
       (simp_all add: grade_unfold js_get_def id_value_def)
next
  case (Some s)
  show ?thesis
  proof (cases "question_options q")
    case None
    then show ?thesis using Some
      by (simp add: grade_unfold js_get_def id_value_def find_opt_fst)
  next
    case os: (Some os)
    then show ?thesis using Some
      by (cases "find is_correct os")
         (auto simp: grade_unfold js_get_def id_value_def find_opt_fst)
  qed
qed

lemma grade_fields:
  "number (fst (grade a q i c)) = Suc i"
  "questionId (fst (grade a q i c)) = q_id q"
  "questionContent (fst (grade a q i c)) = q_content q"
  by (simp_all add: grade_unfold)


lemma grade_cong: "a1 (q_id q) = a2 (q_id q) \<Longrightarrow> grade a1 q i c = grade a2 q i c"
  by (simp add: grade_def js_get_def)

lemma grade_steps_shape:
  "\<exists>js. snd (snd (grade a q i c)) = Callback i # map (Probe i) js
     \<and> (\<forall>j\<in>set js. j < option_count q) \<and> length js \<le> 2 * option_count q"
proof -
  let ?n1 = "snd (find_opt is_correct q)"
  let ?n2 = "snd (find_opt (\<lambda>opt. Text (opt_id opt) = js_get a (q_id q)) q)"
  have n1: "?n1 \<le> option_count q" and n2: "?n2 \<le> option_count q"
    by (rule find_opt_calls)+
  have "snd (snd (grade a q i c)) = Callback i # map (Probe i) ([0..<?n1] @ [0..<?n2])"
    by (simp add: grade_unfold)
  moreover have "\<forall>j\<in>set ([0..<?n1] @ [0..<?n2]). j < option_count q"
    using n1 n2 by auto
  moreover have "length ([0..<?n1] @ [0..<?n2]) \<le> 2 * option_count q"
    using n1 n2 by simp
  ultimately show ?thesis by blast
qed

lemma map_questions_Cons:
  "map_questions a (q # qs) i c =
     (fst (grade a q i c) # fst (map_questions a qs (Suc i) (fst (snd (grade a q i c)))),
      fst (snd (map_questions a qs (Suc i) (fst (snd (grade a q i c))))),
      snd (snd (grade a q i c)) @ snd (snd (map_questions a qs (Suc i) (fst (snd (grade a q i c))))))"
  by (simp split: prod.splits)

lemma map_questions_fst:
  "fst (map_questions a qs i c) = map (\<lambda>(k, q). fst (grade a q k 0)) (zip [i..<i + length qs] qs)"
proof (induction qs arbitrary: i c)
  case Nil
  show ?case by simp
next
  case (Cons q qs)
  have "[i..<i + Suc (length qs)] = i # [Suc i..<i + Suc (length qs)]"
    by (rule upt_conv_Cons) simp
  then have upt: "[i..<i + length (q # qs)] = i # [Suc i..<Suc i + length qs]"
    by simp
  show ?case
    unfolding map_questions_Cons upt
    using Cons.IH [of "Suc i"] fst_grade_cnt [of a q i c] by simp
qed

lemma map_questions_steps:
  "snd (snd (map_questions a qs i c))
     = concat (map (\<lambda>(k, q). snd (snd (grade a q k 0))) (zip [i..<i + length qs] qs))"
proof (induction qs arbitrary: i c)
  case Nil
  show ?case by simp
next
  case (Cons q qs)
  have "[i..<i + Suc (length qs)] = i # [Suc i..<i + Suc (length qs)]"
    by (rule upt_conv_Cons) simp
  then have upt: "[i..<i + length (q # qs)] = i # [Suc i..<Suc i + length qs]"
    by simp
  show ?case
    unfolding map_questions_Cons upt
    using Cons.IH [of "Suc i"] steps_grade_cnt [of a q i c] by simp
qed

lemma map_questions_cnt:
  "fst (snd (map_questions a qs i c))
     = c + length (filter isCorrect (fst (map_questions a qs i c)))"
proof (induction qs arbitrary: i c)
  case Nil
  show ?case by simp
next
  case (Cons q qs)
  show ?case
    unfolding map_questions_Cons
    using Cons.IH [of "Suc i"] cnt_grade [of a q i c] fst_grade_cnt [of a q i c] by simp
qed

lemma map_questions_length: "length (fst (map_questions a qs i c)) = length qs"
  by (simp add: map_questions_fst)

lemma map_questions_nth:
  "k < length qs \<Longrightarrow> fst (map_questions a qs i c) ! k = fst (grade a (qs ! k) (i + k) 0)"
  by (simp add: map_questions_fst)

lemma map_questions_correct_filter:
  "length (filter isCorrect (fst (map_questions a qs i c))) =
     length (filter (matches_correct_option a) qs)"
proof (induction qs arbitrary: i c)
  case Nil
  show ?case by simp
next
  case (Cons q qs)
  show ?case
    unfolding map_questions_Cons
    using Cons.IH [of "Suc i"] isCorrect_grade [of a q i c] by simp
qed

lemma map_questions_cong:
  "\<forall>q\<in>set qs. a1 (q_id q) = a2 (q_id q) \<Longrightarrow> map_questions a1 qs i c = map_questions a2 qs i c"
proof (induction qs arbitrary: i c)
  case Nil
  show ?case by simp
next
  case (Cons q qs)
  have "grade a1 q i c = grade a2 q i c"
    using Cons.prems by (intro grade_cong) simp
  moreover have "map_questions a1 qs i' c' = map_questions a2 qs i' c'" for i' c'
    using Cons.prems by (intro Cons.IH) simp
  ultimately show ?case by simp
qed

lemma calculateScore_unfold:
  "calculateScore t a =
     \<lparr> score = (if 0 < length (loaded_questions t)
                 then percent (fst (snd (map_questions a (loaded_questions t) 0 0)))
                        (length (loaded_questions t))
                 else 0),
       correctCount = fst (snd (map_questions a (loaded_questions t) 0 0)),
       errorCount = int (length (loaded_questions t))
                    - int (fst (snd (map_questions a (loaded_questions t) 0 0))),
       gradedAnswers = fst (map_questions a (loaded_questions t) 0 0) \<rparr>"
  by (simp add: calculateScore_def loaded_questions_def Let_def split: option.splits prod.splits)

lemma calculateScore_steps_unfold:
  "calculateScore_steps t a = snd (snd (map_questions a (loaded_questions t) 0 0))"
  by (simp add: calculateScore_steps_def loaded_questions_def split: option.splits)

lemma map_run_drop:
  "map_run a qs fuel k c =
     (if length qs - k \<le> fuel then Some (map_questions a (drop k qs) k c) else None)"
proof (induction fuel arbitrary: k c)
  case 0
  show ?case by simp
next
  case (Suc fuel)
  show ?case
  proof (cases "k < length qs")
    case False
    then show ?thesis by simp
  next
    case True
    then have d: "drop k qs = qs ! k # drop (Suc k) qs"
      by (simp add: Cons_nth_drop_Suc)
    have le: "(length qs - k \<le> Suc fuel) = (length qs - Suc k \<le> fuel)"
      using True by auto
    show ?thesis
    proof (cases "length qs - Suc k \<le> fuel")
      case yes: True
      then show ?thesis
        using True le Suc.IH [of "Suc k"]
        by (simp add: d split: prod.splits)
    next
      case no: False
      then show ?thesis
        using True le Suc.IH [of "Suc k"]
        by (simp split: prod.splits)
    qed
  qed
qed

lemma map_run_fuel:
  "map_run a qs fuel 0 0 = (if length qs \<le> fuel then Some (map_questions a qs 0 0) else None)"
  using map_run_drop [of a qs fuel 0 0] by simp

lemmas percent_eval =
  percent_def js_mul_def js_div_def to_double_def Math_round_def ge_pow2_def
  round_half_even_def bitlen.simps Let_def

lemmas sample_eval =
  calculateScore_def sample_test_def sample_questions_def sample_answers_def
  grade_def find_opt_def or_else_def or_null_def value_or_null_def id_value_def js_get_def
  loaded_questions_def

lemma sample_result:
  "calculateScore (Some sample_test) sample_answers =
     \<lparr> score = 33, correctCount = 1, errorCount = 2,
       gradedAnswers =
         [\<lparr> number = 1, questionId = ''q1'', questionContent = ''2 + 2'',
             selectedOption = ''A'', selectedOptionId = Text ''o1'',
             correctOption = ''A'', correctOptionId = Some ''o1'', isCorrect = True \<rparr>,
          \<lparr> number = 2, questionId = ''q2'', questionContent = ''3 * 3'',
             selectedOption = ''A'', selectedOptionId = Text ''o3'',
             correctOption = ''B'', correctOptionId = Some ''o4'', isCorrect = False \<rparr>,
          \<lparr> number = 3, questionId = ''q3'', questionContent = ''7 - 1'',
             selectedOption = ''-'', selectedOptionId = Nullish,
             correctOption = ''?'', correctOptionId = None, isCorrect = False \<rparr>] \<rparr>"
  by (simp add: sample_eval percent_eval Object_prototype_names_def)

lemma sample_steps:
  "calculateScore_steps (Some sample_test) sample_answers =
     [Callback 0, Probe 0 0, Probe 0 0, Callback 1, Probe 1 0, Probe 1 1, Probe 1 0, Callback 2]"
  by (simp add: calculateScore_steps_def sample_test_def sample_questions_def sample_answers_def
      grade_def find_opt_def js_get_def Object_prototype_names_def id_value_def upt_rec)

lemma map_questions_callbacks:
  "filter is_Callback (snd (snd (map_questions a qs i c))) = map Callback [i..<i + length qs]"
proof (induction qs arbitrary: i c)
  case Nil
  show ?case by simp
next
  case (Cons q qs)
  have "[i..<i + Suc (length qs)] = i # [Suc i..<i + Suc (length qs)]"
    by (rule upt_conv_Cons) simp
  then have upt: "[i..<i + length (q # qs)] = i # [Suc i..<Suc i + length qs]"
    by simp
  obtain js where js: "snd (snd (grade a q i c)) = Callback i # map (Probe i) js"
    using grade_steps_shape [of a q i c] by blast
  have "filter is_Callback (map (Probe i) js) = []"
    by (induction js) simp_all
  then have "filter is_Callback (snd (snd (grade a q i c))) = [Callback i]"
    by (simp add: js)
  then show ?case
    unfolding map_questions_Cons upt
    using Cons.IH [of "Suc i"] by simp
qed

lemma map_questions_probes:
  "Probe k j \<in> set (snd (snd (map_questions a qs i c)))
     \<Longrightarrow> i \<le> k \<and> k < i + length qs \<and> j < option_count (qs ! (k - i))"
proof (induction qs arbitrary: i c)
  case Nil
  then show ?case by simp
next
  case (Cons q qs)
  obtain js where js: "snd (snd (grade a q i c)) = Callback i # map (Probe i) js"
    and bound: "\<forall>j\<in>set js. j < option_count q"
    using grade_steps_shape [of a q i c] by blast
  from Cons.prems consider
      (here) "Probe k j \<in> set (snd (snd (grade a q i c)))"
    | (later) "Probe k j \<in> set (snd (snd (map_questions a qs (Suc i) (fst (snd (grade a q i c))))))"
    unfolding map_questions_Cons by auto
  then show ?case
  proof cases
    case here
    then have "k = i" "j \<in> set js" by (auto simp: js)
    then show ?thesis using bound by simp
  next
    case later
    from Cons.IH [OF later] have "Suc i \<le> k" "k < Suc i + length qs"
      "j < option_count (qs ! (k - Suc i))" by simp_all
    moreover from \<open>Suc i \<le> k\<close> have "k - i = Suc (k - Suc i)" by simp
    then have "(q # qs) ! (k - i) = qs ! (k - Suc i)" by simp
    ultimately show ?thesis by simp
  qed
qed

lemma map_questions_steps_bound:
  "length (snd (snd (map_questions a qs i c))) \<le> length qs + 2 * sum_list (map option_count qs)"
proof (induction qs arbitrary: i c)
  case Nil
  show ?case by simp
next
  case (Cons q qs)
  obtain js where js: "snd (snd (grade a q i c)) = Callback i # map (Probe i) js"
    and len: "length js \<le> 2 * option_count q"
    using grade_steps_shape [of a q i c] by blast
  show ?case
    unfolding map_questions_Cons
    using Cons.IH [of "Suc i" "fst (snd (grade a q i c))"] len by (simp add: js)
qed

lemma zip_upt_map:
  "map (\<lambda>(k, q). f k q) (zip [0..<length qs] qs) = map (\<lambda>k. f k (qs ! k)) [0..<length qs]"
  by (rule nth_equalityI) simp_all

text \<open>
  Claim C1. For a loaded test, the graded answer of a question is marked correct exactly
  when an option id is recorded for the question and it is the id of the question's
  option marked \<^verbatim>\<open>is_correct\<close> (the first one, as \<^verbatim>\<open>find\<close> returns it); \<^verbatim>\<open>correctCount\<close>
  is the number of such questions; and the score is
  \<^verbatim>\<open>Math.round((correctCount / totalQuestions) * 100)\<close> with \<^verbatim>\<open>totalQuestions\<close> the length
  of the question list, and 0 when that length is 0. The score is stated on the real
  numbers: the quotient rounded to binary64, its product with 100 rounded to binary64,
  and the nearest integer of that, a tie going up.
\<close>

theorem calculateScore_counts_matching_answers:
  "(\<forall>k<length (loaded_questions (Some t)).
       isCorrect (gradedAnswers (calculateScore (Some t) a) ! k) =
         matches_correct_option a (loaded_questions (Some t) ! k))
   \<and> correctCount (calculateScore (Some t) a) =
         length (filter (matches_correct_option a) (loaded_questions (Some t)))
   \<and> int (score (calculateScore (Some t) a)) =
         (if length (loaded_questions (Some t)) = 0 then 0
          else \<lfloor>binary64 (binary64 (real (correctCount (calculateScore (Some t) a))
                   / real (length (loaded_questions (Some t)))) * 100) + 1 / 2\<rfloor>)"
proof (intro conjI allI impI)
  fix k assume "k < length (loaded_questions (Some t))"
  then show "isCorrect (gradedAnswers (calculateScore (Some t) a) ! k) =
      matches_correct_option a (loaded_questions (Some t) ! k)"
    by (simp add: calculateScore_unfold map_questions_nth isCorrect_grade)
next
  show "correctCount (calculateScore (Some t) a) =
      length (filter (matches_correct_option a) (loaded_questions (Some t)))"
    using map_questions_cnt [of a "loaded_questions (Some t)" 0 0]
      map_questions_correct_filter [of a "loaded_questions (Some t)" 0 0]
    by (simp add: calculateScore_unfold)
next
  show "int (score (calculateScore (Some t) a)) =
      (if length (loaded_questions (Some t)) = 0 then 0
       else \<lfloor>binary64 (binary64 (real (correctCount (calculateScore (Some t) a))
                / real (length (loaded_questions (Some t)))) * 100) + 1 / 2\<rfloor>)"
  proof (cases "length (loaded_questions (Some t)) = 0")
    case True
    then show ?thesis by (simp add: calculateScore_unfold)
  next
    case False
    then have n: "0 < length (loaded_questions (Some t))" by simp
    show ?thesis
      using n percent_spec [OF n, of "fst (snd (map_questions a (loaded_questions (Some t)) 0 0))"]
      by (simp add: calculateScore_unfold)
  qed
qed

theorem calculateScore_counts_matching_answers_witness:
  "(map isCorrect (gradedAnswers (calculateScore (Some sample_test) sample_answers))
      = [True, False, False]
    \<and> correctCount (calculateScore (Some sample_test) sample_answers) = 1
    \<and> length (loaded_questions (Some sample_test)) = 3
    \<and> score (calculateScore (Some sample_test) sample_answers) = 33)
   \<and> (0 < length (loaded_questions (Some sample_test))
      \<and> isCorrect (gradedAnswers (calculateScore (Some sample_test) sample_answers) ! 0) =
           matches_correct_option sample_answers (loaded_questions (Some sample_test) ! 0))
   \<and> correctCount (calculateScore (Some sample_test) sample_answers) =
        length (filter (matches_correct_option sample_answers)
                  (loaded_questions (Some sample_test)))
   \<and> int (score (calculateScore (Some sample_test) sample_answers)) =
        (if length (loaded_questions (Some sample_test)) = 0 then 0
         else \<lfloor>binary64 (binary64 (real (correctCount (calculateScore (Some sample_test) sample_answers))
                  / real (length (loaded_questions (Some sample_test)))) * 100) + 1 / 2\<rfloor>)
   \<and> \<lfloor>binary64 (binary64 (1 / 3) * 100) + 1 / 2\<rfloor> = 33"
proof -
  note T = calculateScore_counts_matching_answers [of sample_test sample_answers]
  have e: "map isCorrect (gradedAnswers (calculateScore (Some sample_test) sample_answers))
      = [True, False, False]
    \<and> correctCount (calculateScore (Some sample_test) sample_answers) = 1
    \<and> length (loaded_questions (Some sample_test)) = 3
    \<and> score (calculateScore (Some sample_test) sample_answers) = 33"
    by (simp add: sample_result) (simp add: loaded_questions_def sample_test_def sample_questions_def)
  have n: "0 < length (loaded_questions (Some sample_test))"
    using e by simp
  have k: "isCorrect (gradedAnswers (calculateScore (Some sample_test) sample_answers) ! 0) =
      matches_correct_option sample_answers (loaded_questions (Some sample_test) ! 0)"
    by (rule T [THEN conjunct1, THEN spec, THEN mp, OF n])
  have "int (score (calculateScore (Some sample_test) sample_answers))
      = \<lfloor>binary64 (binary64 (real (correctCount (calculateScore (Some sample_test) sample_answers))
            / real (length (loaded_questions (Some sample_test)))) * 100) + 1 / 2\<rfloor>"
    using T [THEN conjunct2, THEN conjunct2] n by simp
  then have v: "\<lfloor>binary64 (binary64 (1 / 3) * 100) + 1 / 2\<rfloor> = 33"
    using e by simp
  show ?thesis
    by (rule conjI [OF e conjI [OF conjI [OF n k] conjI [OF T [THEN conjunct2, THEN conjunct1]
          conjI [OF T [THEN conjunct2, THEN conjunct2] v]]]])
qed

text \<open>
  Claim C2. For every test and every answers map, \<^verbatim>\<open>correctCount + errorCount\<close> is the
  number of questions and \<^verbatim>\<open>correctCount\<close> lies between 0 (it is a count) and that
  number: there is one graded answer per question, \<^verbatim>\<open>correctCount\<close> counts those marked
  correct and \<^verbatim>\<open>errorCount\<close> those not marked correct, so no question is counted twice.
\<close>

theorem calculateScore_counts_each_question_once:
  "int (correctCount (calculateScore t a)) + errorCount (calculateScore t a)
     = int (length (loaded_questions t))
   \<and> correctCount (calculateScore t a) \<le> length (loaded_questions t)
   \<and> length (gradedAnswers (calculateScore t a)) = length (loaded_questions t)
   \<and> correctCount (calculateScore t a)
       = length (filter isCorrect (gradedAnswers (calculateScore t a)))
   \<and> errorCount (calculateScore t a)
       = int (length (filter (\<lambda>g. \<not> isCorrect g) (gradedAnswers (calculateScore t a))))"
proof -
  let ?qs = "loaded_questions t"
  let ?gs = "fst (map_questions a ?qs 0 0)"
  have c: "fst (snd (map_questions a ?qs 0 0)) = length (filter isCorrect ?gs)"
    using map_questions_cnt [of a ?qs 0 0] by simp
  have n: "length ?gs = length ?qs"
    by (rule map_questions_length)
  have split: "length (filter isCorrect ?gs) + length (filter (\<lambda>g. \<not> isCorrect g) ?gs)
      = length ?gs"
    by (rule sum_length_filter_compl)
  have le: "length (filter isCorrect ?gs) \<le> length ?gs"
    by (rule length_filter_le)
  show ?thesis
    using c n split le by (simp add: calculateScore_unfold)
qed

theorem calculateScore_counts_each_question_once_witness:
  "(correctCount (calculateScore (Some sample_test) sample_answers) = 1
    \<and> errorCount (calculateScore (Some sample_test) sample_answers) = 2
    \<and> map isCorrect (gradedAnswers (calculateScore (Some sample_test) sample_answers))
        = [True, False, False])
   \<and> (int (correctCount (calculateScore (Some sample_test) sample_answers))
        + errorCount (calculateScore (Some sample_test) sample_answers)
        = int (length (loaded_questions (Some sample_test)))
      \<and> correctCount (calculateScore (Some sample_test) sample_answers)
          \<le> length (loaded_questions (Some sample_test))
      \<and> length (gradedAnswers (calculateScore (Some sample_test) sample_answers))
          = length (loaded_questions (Some sample_test))
      \<and> correctCount (calculateScore (Some sample_test) sample_answers)
          = length (filter isCorrect (gradedAnswers (calculateScore (Some sample_test) sample_answers)))
      \<and> errorCount (calculateScore (Some sample_test) sample_answers)
          = int (length (filter (\<lambda>g. \<not> isCorrect g)
                  (gradedAnswers (calculateScore (Some sample_test) sample_answers)))))"
proof (rule conjI)
  show "correctCount (calculateScore (Some sample_test) sample_answers) = 1
    \<and> errorCount (calculateScore (Some sample_test) sample_answers) = 2
    \<and> map isCorrect (gradedAnswers (calculateScore (Some sample_test) sample_answers))
        = [True, False, False]"
    by (simp add: sample_result)
qed (rule calculateScore_counts_each_question_once)

text \<open>
  Claim C3. \<^verbatim>\<open>calculateScore\<close> is deterministic. It reads the state \<^verbatim>\<open>test\<close> and
  \<^verbatim>\<open>answers\<close> and nothing else (no clock, no random number, no request), so a run is the
  function of these two inputs defined above. The result depends on them only through
  the question list and the answers recorded for its questions: two runs that agree on
  these, in particular two runs on equal inputs, return the same score, the same
  \<^verbatim>\<open>correctCount\<close>, the same \<^verbatim>\<open>errorCount\<close> and the same list \<^verbatim>\<open>gradedAnswers\<close>.
\<close>

theorem calculateScore_deterministic:
  assumes "loaded_questions t1 = loaded_questions t2"
    and "\<forall>q\<in>set (loaded_questions t1). a1 (q_id q) = a2 (q_id q)"
  shows "score (calculateScore t1 a1) = score (calculateScore t2 a2)
    \<and> correctCount (calculateScore t1 a1) = correctCount (calculateScore t2 a2)
    \<and> errorCount (calculateScore t1 a1) = errorCount (calculateScore t2 a2)
    \<and> gradedAnswers (calculateScore t1 a1) = gradedAnswers (calculateScore t2 a2)"
proof -
  have "map_questions a1 (loaded_questions t1) 0 0 = map_questions a2 (loaded_questions t1) 0 0"
    using assms(2) by (rule map_questions_cong)
  then show ?thesis
    using assms(1) by (simp add: calculateScore_unfold)
qed

theorem calculateScore_deterministic_witness:
  "(loaded_questions (Some sample_test)
      = loaded_questions (Some (sample_test\<lparr>title := ''Second sitting''\<rparr>))
    \<and> map q_id (loaded_questions (Some sample_test)) = [''q1'', ''q2'', ''q3'']
    \<and> sample_answers ''q1'' = (sample_answers(''q9'' \<mapsto> ''o1'')) ''q1''
    \<and> sample_answers ''q2'' = (sample_answers(''q9'' \<mapsto> ''o1'')) ''q2''
    \<and> sample_answers ''q3'' = (sample_answers(''q9'' \<mapsto> ''o1'')) ''q3''
    \<and> sample_answers \<noteq> sample_answers(''q9'' \<mapsto> ''o1''))
   \<and> (score (calculateScore (Some sample_test) sample_answers)
        = score (calculateScore (Some (sample_test\<lparr>title := ''Second sitting''\<rparr>))
            (sample_answers(''q9'' \<mapsto> ''o1'')))
      \<and> correctCount (calculateScore (Some sample_test) sample_answers)
        = correctCount (calculateScore (Some (sample_test\<lparr>title := ''Second sitting''\<rparr>))
            (sample_answers(''q9'' \<mapsto> ''o1'')))
      \<and> errorCount (calculateScore (Some sample_test) sample_answers)
        = errorCount (calculateScore (Some (sample_test\<lparr>title := ''Second sitting''\<rparr>))
            (sample_answers(''q9'' \<mapsto> ''o1'')))
      \<and> gradedAnswers (calculateScore (Some sample_test) sample_answers)
        = gradedAnswers (calculateScore (Some (sample_test\<lparr>title := ''Second sitting''\<rparr>))
            (sample_answers(''q9'' \<mapsto> ''o1''))))"
proof -
  have h1: "loaded_questions (Some sample_test)
      = loaded_questions (Some (sample_test\<lparr>title := ''Second sitting''\<rparr>))"
    by (simp add: loaded_questions_def sample_test_def)
  have ids: "map q_id (loaded_questions (Some sample_test)) = [''q1'', ''q2'', ''q3'']"
    by (simp add: loaded_questions_def sample_test_def sample_questions_def)
  have a1: "sample_answers ''q1'' = (sample_answers(''q9'' \<mapsto> ''o1'')) ''q1''"
    and a2: "sample_answers ''q2'' = (sample_answers(''q9'' \<mapsto> ''o1'')) ''q2''"
    and a3: "sample_answers ''q3'' = (sample_answers(''q9'' \<mapsto> ''o1'')) ''q3''"
    by simp_all
  have "sample_answers ''q9'' \<noteq> (sample_answers(''q9'' \<mapsto> ''o1'')) ''q9''"
    by (simp add: sample_answers_def)
  then have ne: "sample_answers \<noteq> sample_answers(''q9'' \<mapsto> ''o1'')"
    by metis
  have "\<forall>x\<in>set (map q_id (loaded_questions (Some sample_test))).
      sample_answers x = (sample_answers(''q9'' \<mapsto> ''o1'')) x"
    unfolding ids using a1 a2 a3 by simp
  then have h2: "\<forall>q\<in>set (loaded_questions (Some sample_test)).
      sample_answers (q_id q) = (sample_answers(''q9'' \<mapsto> ''o1'')) (q_id q)"
    by simp
  show ?thesis
    by (intro conjI calculateScore_deterministic [OF h1 h2]) (fact h1 ids a1 a2 a3 ne)+
qed

text \<open>
  Claim C7. \<^verbatim>\<open>handleSelectOption(questionId, optionId)\<close> sets the entry of
  \<^verbatim>\<open>questionId\<close> to \<^verbatim>\<open>optionId\<close>, replacing an earlier selection (the answers hold one
  option per question), and leaves the entry of every other question as it was.
\<close>

theorem handleSelectOption_frame:
  "handleSelectOption qid optionId prev qid = Some optionId
   \<and> (\<forall>other. other \<noteq> qid \<longrightarrow> handleSelectOption qid optionId prev other = prev other)
   \<and> dom (handleSelectOption qid optionId prev) = insert qid (dom prev)"
  by (simp add: handleSelectOption_def)

theorem handleSelectOption_frame_witness:
  "(sample_answers ''q2'' = Some ''o3'' \<and> sample_answers ''q1'' = Some ''o1''
    \<and> ''q1'' \<noteq> ''q2'')
   \<and> handleSelectOption ''q2'' ''o4'' sample_answers ''q2'' = Some ''o4''
   \<and> handleSelectOption ''q2'' ''o4'' sample_answers ''q1'' = sample_answers ''q1''
   \<and> dom (handleSelectOption ''q2'' ''o4'' sample_answers) = insert ''q2'' (dom sample_answers)"
proof -
  note T = handleSelectOption_frame [of "''q2''" "''o4''" sample_answers]
  have e: "sample_answers ''q2'' = Some ''o3'' \<and> sample_answers ''q1'' = Some ''o1''
    \<and> ''q1'' \<noteq> ''q2''"
    by (simp add: sample_answers_def)
  have other: "handleSelectOption ''q2'' ''o4'' sample_answers ''q1'' = sample_answers ''q1''"
    by (rule T [THEN conjunct2, THEN conjunct1, THEN spec, THEN mp])
       (rule e [THEN conjunct2, THEN conjunct2])
  show ?thesis
    by (rule conjI [OF e conjI [OF T [THEN conjunct1]
          conjI [OF other T [THEN conjunct2, THEN conjunct2]]]])
qed

text \<open>
  Claim C6. \<^verbatim>\<open>calculateScore\<close> goes through the question list once and ends. The loop
  of \<^verbatim>\<open>map\<close> needs exactly as many iterations as there are questions: with that many
  it returns the results and the steps of \<open>calculateScore\<close>, with fewer it has not
  finished. The steps hold one call of the callback for each index \<open>0, 1, ...\<close>, in that
  order and no other; they are the steps of the calls of the callback, one after the
  other, each on its own question; every call of a predicate of \<^verbatim>\<open>find\<close> is on an
  option of the question being graded; and the number of steps is at most the number of
  questions plus twice the number of their options. There is one graded answer per
  question, numbered from 1, computed from that question and the answers alone.
\<close>

theorem calculateScore_single_pass:
  "map_run a (loaded_questions t) fuel 0 0
     = (if length (loaded_questions t) \<le> fuel
        then Some (gradedAnswers (calculateScore t a), correctCount (calculateScore t a),
                   calculateScore_steps t a)
        else None)
   \<and> filter is_Callback (calculateScore_steps t a)
       = map Callback [0..<length (loaded_questions t)]
   \<and> calculateScore_steps t a
       = concat (map (\<lambda>k. snd (snd (grade a (loaded_questions t ! k) k 0)))
                   [0..<length (loaded_questions t)])
   \<and> (\<forall>k j. Probe k j \<in> set (calculateScore_steps t a)
         \<longrightarrow> k < length (loaded_questions t) \<and> j < option_count (loaded_questions t ! k))
   \<and> length (calculateScore_steps t a)
       \<le> length (loaded_questions t) + 2 * sum_list (map option_count (loaded_questions t))
   \<and> length (gradedAnswers (calculateScore t a)) = length (loaded_questions t)
   \<and> map number (gradedAnswers (calculateScore t a)) = [1..<Suc (length (loaded_questions t))]
   \<and> map questionId (gradedAnswers (calculateScore t a)) = map q_id (loaded_questions t)
   \<and> (\<forall>k<length (loaded_questions t). \<forall>c.
         gradedAnswers (calculateScore t a) ! k = fst (grade a (loaded_questions t ! k) k c))"
proof (intro conjI allI impI)
  show "map_run a (loaded_questions t) fuel 0 0
     = (if length (loaded_questions t) \<le> fuel
        then Some (gradedAnswers (calculateScore t a), correctCount (calculateScore t a),
                   calculateScore_steps t a)
        else None)"
    by (simp add: map_run_fuel calculateScore_unfold calculateScore_steps_unfold)
next
  show "filter is_Callback (calculateScore_steps t a)
      = map Callback [0..<length (loaded_questions t)]"
    using map_questions_callbacks [of a "loaded_questions t" 0 0]
    by (simp add: calculateScore_steps_unfold)
next
  show "calculateScore_steps t a
      = concat (map (\<lambda>k. snd (snd (grade a (loaded_questions t ! k) k 0)))
                  [0..<length (loaded_questions t)])"
    using map_questions_steps [of a "loaded_questions t" 0 0]
      zip_upt_map [of "\<lambda>k q. snd (snd (grade a q k 0))" "loaded_questions t"]
    by (simp add: calculateScore_steps_unfold)
next
  fix k j assume "Probe k j \<in> set (calculateScore_steps t a)"
  then have "Probe k j \<in> set (snd (snd (map_questions a (loaded_questions t) 0 0)))"
    by (simp add: calculateScore_steps_unfold)
  from map_questions_probes [OF this]
  show "k < length (loaded_questions t)" and "j < option_count (loaded_questions t ! k)"
    by simp_all
next
  show "length (calculateScore_steps t a)
      \<le> length (loaded_questions t) + 2 * sum_list (map option_count (loaded_questions t))"
    using map_questions_steps_bound [of a "loaded_questions t" 0 0]
    by (simp add: calculateScore_steps_unfold)
next
  show "length (gradedAnswers (calculateScore t a)) = length (loaded_questions t)"
    by (simp add: calculateScore_unfold map_questions_length)
next
  have "map number (fst (map_questions a qs i c)) = [Suc i..<Suc (i + length qs)]" for qs i c
  proof (rule nth_equalityI)
    show "length (map number (fst (map_questions a qs i c))) = length [Suc i..<Suc (i + length qs)]"
      by (simp add: map_questions_length del: upt_Suc)
  next
    fix k assume "k < length (map number (fst (map_questions a qs i c)))"
    then have "k < length qs" by (simp add: map_questions_length)
    then show "map number (fst (map_questions a qs i c)) ! k = [Suc i..<Suc (i + length qs)] ! k"
      by (simp add: map_questions_length map_questions_nth grade_fields del: upt_Suc)
  qed
  from this [of "loaded_questions t" 0 0]
  show "map number (gradedAnswers (calculateScore t a)) = [1..<Suc (length (loaded_questions t))]"
    by (simp add: calculateScore_unfold)
next
  have "map questionId (fst (map_questions a qs i c)) = map q_id qs" for qs i c
    by (rule nth_equalityI)
       (simp_all add: map_questions_length map_questions_nth grade_fields)
  then show "map questionId (gradedAnswers (calculateScore t a)) = map q_id (loaded_questions t)"
    by (simp add: calculateScore_unfold)
next
  fix k c assume "k < length (loaded_questions t)"
  then show "gradedAnswers (calculateScore t a) ! k = fst (grade a (loaded_questions t ! k) k c)"
    using fst_grade_cnt [of a "loaded_questions t ! k" k c]
    by (simp add: calculateScore_unfold map_questions_nth)
qed

theorem calculateScore_single_pass_witness:
  "(length (loaded_questions (Some sample_test)) = 3
    \<and> calculateScore_steps (Some sample_test) sample_answers
        = [Callback 0, Probe 0 0, Probe 0 0, Callback 1, Probe 1 0, Probe 1 1, Probe 1 0,
           Callback 2]
    \<and> map number (gradedAnswers (calculateScore (Some sample_test) sample_answers)) = [1, 2, 3])
   \<and> map_run sample_answers (loaded_questions (Some sample_test)) 2 0 0 = None
   \<and> map_run sample_answers (loaded_questions (Some sample_test)) 3 0 0
        = Some (gradedAnswers (calculateScore (Some sample_test) sample_answers),
                correctCount (calculateScore (Some sample_test) sample_answers),
                calculateScore_steps (Some sample_test) sample_answers)
   \<and> filter is_Callback (calculateScore_steps (Some sample_test) sample_answers)
        = map Callback [0..<length (loaded_questions (Some sample_test))]
   \<and> (Probe 1 1 \<in> set (calculateScore_steps (Some sample_test) sample_answers)
      \<and> 1 < length (loaded_questions (Some sample_test))
      \<and> 1 < option_count (loaded_questions (Some sample_test) ! 1))
   \<and> length (calculateScore_steps (Some sample_test) sample_answers)
        \<le> length (loaded_questions (Some sample_test))
          + 2 * sum_list (map option_count (loaded_questions (Some sample_test)))
   \<and> length (gradedAnswers (calculateScore (Some sample_test) sample_answers))
        = length (loaded_questions (Some sample_test))
   \<and> map number (gradedAnswers (calculateScore (Some sample_test) sample_answers))
        = [1..<Suc (length (loaded_questions (Some sample_test)))]
   \<and> map questionId (gradedAnswers (calculateScore (Some sample_test) sample_answers))
        = map q_id (loaded_questions (Some sample_test))
   \<and> (2 < length (loaded_questions (Some sample_test))
      \<and> gradedAnswers (calculateScore (Some sample_test) sample_answers) ! 2
           = fst (grade sample_answers (loaded_questions (Some sample_test) ! 2) 2 7))"
proof -
  note T = calculateScore_single_pass [of sample_answers "Some sample_test"]
  have len: "length (loaded_questions (Some sample_test)) = 3"
    by (simp add: loaded_questions_def sample_test_def sample_questions_def)
  have e: "length (loaded_questions (Some sample_test)) = 3
    \<and> calculateScore_steps (Some sample_test) sample_answers
        = [Callback 0, Probe 0 0, Probe 0 0, Callback 1, Probe 1 0, Probe 1 1, Probe 1 0,
           Callback 2]
    \<and> map number (gradedAnswers (calculateScore (Some sample_test) sample_answers)) = [1, 2, 3]"
    by (simp add: sample_result sample_steps len)
  have short: "map_run sample_answers (loaded_questions (Some sample_test)) 2 0 0 = None"
    using T [of 2, THEN conjunct1] len by simp
  have enough: "map_run sample_answers (loaded_questions (Some sample_test)) 3 0 0
      = Some (gradedAnswers (calculateScore (Some sample_test) sample_answers),
              correctCount (calculateScore (Some sample_test) sample_answers),
              calculateScore_steps (Some sample_test) sample_answers)"
    using T [of 3, THEN conjunct1] len by simp
  note R = T [of 0, THEN conjunct2]
  have p: "Probe 1 1 \<in> set (calculateScore_steps (Some sample_test) sample_answers)"
    by (simp add: sample_steps)
  have pk: "1 < length (loaded_questions (Some sample_test))
      \<and> 1 < option_count (loaded_questions (Some sample_test) ! 1)"
    by (rule R [THEN conjunct2, THEN conjunct2, THEN conjunct1, THEN spec, THEN spec, THEN mp,
          OF p])
  have n: "2 < length (loaded_questions (Some sample_test))"
    using len by simp
  note R5 = R [THEN conjunct2, THEN conjunct2, THEN conjunct2, THEN conjunct2]
  have k: "gradedAnswers (calculateScore (Some sample_test) sample_answers) ! 2
      = fst (grade sample_answers (loaded_questions (Some sample_test) ! 2) 2 7)"
    by (rule R5 [THEN conjunct2, THEN conjunct2, THEN conjunct2, THEN spec, THEN mp, OF n,
          THEN spec])
  show ?thesis
    by (intro conjI) (fact e [THEN conjunct1] e [THEN conjunct2, THEN conjunct1]
        e [THEN conjunct2, THEN conjunct2] short enough R [THEN conjunct1] p
        pk [THEN conjunct1] pk [THEN conjunct2]
        R [THEN conjunct2, THEN conjunct2, THEN conjunct2, THEN conjunct1]
        R5 [THEN conjunct1] R5 [THEN conjunct2, THEN conjunct1]
        R5 [THEN conjunct2, THEN conjunct2, THEN conjunct1] n k)+
qed





section \<open>Properties of loading and of the dashboard\<close>

subsection \<open>Sorting\<close>

lemma mset_js_insort: "mset (js_insort cmp x ys) = add_mset x (mset ys)"
  by (induction ys) simp_all

lemma mset_js_sort: "mset (js_sort cmp xs) = mset xs"
  by (induction xs) (simp_all add: js_sort_def mset_js_insort)

lemma set_js_sort: "set (js_sort cmp xs) = set xs"
  using mset_js_sort [of cmp xs] by (metis set_mset_mset)

lemma js_insort_ties: "\<forall>y. sort_order (cmp x y) \<le> 0 \<Longrightarrow> js_insort cmp x ys = x # ys"
  by (cases ys) simp_all

lemma js_sort_ties: "\<forall>x y. sort_order (cmp x y) \<le> 0 \<Longrightarrow> js_sort cmp xs = xs"
  by (induction xs) (simp_all add: js_sort_def js_insort_ties)

subsection \<open>initExam\<close>

lemma flatten_question_order_index:
  "flatten_question lc tq = Inr q \<Longrightarrow> order_index q = None \<and> deleted q = (case tq_questions tq of None \<Rightarrow> False | Some r \<Rightarrow> row_deleted r)"
  by (auto simp: flatten_question_def split: option.splits)

lemma map_flatten_order_index:
  "map_flatten lc tqs = Inr qs \<Longrightarrow> \<forall>q\<in>set qs. order_index q = None"
proof (induction tqs arbitrary: qs)
  case Nil
  then show ?case by simp
next
  case (Cons tq tqs)
  then show ?case
    by (auto split: sum.splits dest: flatten_question_order_index)
qed

lemma js_sort_undefined_keys:
  assumes "\<forall>q\<in>set qs. order_index q = None"
  shows "js_sort (\<lambda>x y. js_sub (order_index x) (order_index y)) qs = qs"
  using assms
proof (induction qs)
  case Nil
  show ?case by (simp add: js_sort_def)
next
  case (Cons q qs)
  then have "js_sort (\<lambda>x y. js_sub (order_index x) (order_index y)) qs = qs" by simp
  moreover have "js_insort (\<lambda>x y. js_sub (order_index x) (order_index y)) q qs = q # qs"
    using Cons.prems by (cases qs) (simp_all add: js_sub_def sort_order_def)
  ultimately show ?case by (simp add: js_sort_def)
qed

lemma initExam_questions:
  assumes "initExam lc (Data td) = Inr t" and "test_questions td = Some tqs"
  shows "\<exists>qs. map_flatten lc tqs = Inr qs \<and> questions t = Some (filter (\<lambda>q. \<not> deleted q) qs)"
proof -
  from assms obtain qs where qs: "map_flatten lc tqs = Inr qs"
    and t: "questions t = Some (js_sort (\<lambda>x y. js_sub (order_index x) (order_index y))
                (filter (\<lambda>q. \<not> deleted q) qs))"
    by (auto simp: initExam_def split: sum.splits)
  have "\<forall>q\<in>set (filter (\<lambda>q. \<not> deleted q) qs). order_index q = None"
    using map_flatten_order_index [OF qs] by simp
  then show ?thesis using qs t by (simp add: js_sort_undefined_keys)
qed

lemma initExam_no_deleted:
  assumes "initExam lc answer = Inr t"
  shows "\<forall>q\<in>set (loaded_questions (Some t)). \<not> deleted q"
proof (cases answer)
  case Failed
  with assms show ?thesis by (simp add: initExam_def)
next
  case (Data td)
  show ?thesis
  proof (cases "test_questions td")
    case None
    with assms Data show ?thesis by (auto simp: initExam_def loaded_questions_def)
  next
    case (Some tqs)
    from initExam_questions [OF assms [unfolded Data] Some] show ?thesis
      by (auto simp: loaded_questions_def)
  qed
qed

text \<open>
  Claim C8 says that after \<^verbatim>\<open>initExam\<close> the question list holds the questions that are
  not deleted, sorted by \<^verbatim>\<open>order_index\<close>. The first part holds (\<open>initExam_no_deleted\<close>).
  The comparator of line 64 reads \<^verbatim>\<open>order_index\<close> from the flattened questions, which do
  not have it, so every comparison is \<^verbatim>\<open>NaN\<close> and the list stays in the order of the
  rows (\<open>initExam_questions\<close>). On the sample rows, fetched with \<^verbatim>\<open>order_index\<close> 2 before
  1, the loaded list is in that order and not sorted.
\<close>

theorem initExam_keeps_fetched_order:
  "map tq_order_index sample_rows = [2, 1]
   \<and> map_sum id (\<lambda>t. map q_id (loaded_questions (Some t)))
         (initExam byte_compare (Data sample_test_data)) = Inr [''qb'', ''qa'']"
  by (simp add: initExam_def sample_test_data_def sample_rows_def flatten_question_def
      js_sort_def js_sub_def sort_order_def loaded_questions_def)

subsection \<open>The dashboard\<close>

lemma getTestStatus_cases:
  "getTestStatus Date now results r = ''completed'' \<or> getTestStatus Date now results r = ''upcoming''
   \<or> getTestStatus Date now results r = ''expired'' \<or> getTestStatus Date now results r = ''active''"
  by (simp add: getTestStatus_def Let_def)

lemma count_filter_status:
  assumes "\<forall>n<length rs. getTestStatus Date (clock (i + n)) results r = st"
  shows "count (mset (filter_status Date clock results status i rs)) r
    = (if st = status then count (mset rs) r else 0)"
  using assms
proof (induction rs arbitrary: i)
  case Nil
  show ?case by simp
next
  case (Cons x xs)
  have here: "getTestStatus Date (clock i) results r = st"
    using Cons.prems [THEN spec, of 0] by simp
  have "\<forall>n<length xs. getTestStatus Date (clock (Suc i + n)) results r = st"
  proof (intro allI impI)
    fix n assume "n < length xs"
    then have "Suc n < length (x # xs)" by simp
    with Cons.prems have "getTestStatus Date (clock (i + Suc n)) results r = st" by blast
    then show "getTestStatus Date (clock (Suc i + n)) results r = st" by simp
  qed
  from Cons.IH [OF this]
  have rest: "count (mset (filter_status Date clock results status (Suc i) xs)) r
      = (if st = status then count (mset xs) r else 0)" .
  show ?case
  proof (cases "x = r")
    case True
    then show ?thesis using here rest by (cases "st = status") simp_all
  next
    case False
    then show ?thesis using rest by (cases "st = status") simp_all
  qed
qed

lemma count_js_sort: "count (mset (js_sort cmp xs)) r = count (mset xs) r"
  by (simp add: mset_js_sort)

text \<open>
  Claim C4, amended. \<^verbatim>\<open>getTestStatus\<close> has four results and the dashboard four lists.
  A fetched release that \<^verbatim>\<open>getTestStatus\<close> gives the same status \<open>st\<close> at every reading
  of the clock of the rendering is listed under that status and under no other: it is
  in the list of \<open>st\<close> as often as among the releases, and in the four lists
  together as often as among the releases.
\<close>

theorem dashboard_lists_partition:
  assumes "\<forall>i<4 * length releases. getTestStatus Date (clock i) results r = st"
  shows "count (mset (activeTests Date clock results releases)) r
      = (if st = ''active'' then count (mset releases) r else 0)
    \<and> count (mset (upcomingTests Date clock results releases)) r
      = (if st = ''upcoming'' then count (mset releases) r else 0)
    \<and> count (mset (completedTests Date clock results releases)) r
      = (if st = ''completed'' then count (mset releases) r else 0)
    \<and> count (mset (expiredTests Date clock results releases)) r
      = (if st = ''expired'' then count (mset releases) r else 0)
    \<and> count (mset (activeTests Date clock results releases)
             + mset (upcomingTests Date clock results releases)
             + mset (completedTests Date clock results releases)
             + mset (expiredTests Date clock results releases)) r
      = count (mset releases) r"
proof -
  let ?n = "length releases"
  have pass: "\<forall>n<?n. getTestStatus Date (clock (b * ?n + n)) results r = st" if "b < 4" for b
  proof (intro allI impI)
    fix n assume n: "n < ?n"
    have "b * ?n + n < Suc b * ?n" using n by simp
    also have "\<dots> \<le> 4 * ?n" using that by (intro mult_le_mono1) simp
    finally show "getTestStatus Date (clock (b * ?n + n)) results r = st"
      using assms by blast
  qed
  have a: "count (mset (activeTests Date clock results releases)) r
      = (if st = ''active'' then count (mset releases) r else 0)"
    unfolding activeTests_def
    using pass [of 0] by (intro count_filter_status) simp
  have u: "count (mset (upcomingTests Date clock results releases)) r
      = (if st = ''upcoming'' then count (mset releases) r else 0)"
    unfolding upcomingTests_def count_js_sort
    using pass [of 1] by (intro count_filter_status) simp
  have c: "count (mset (completedTests Date clock results releases)) r
      = (if st = ''completed'' then count (mset releases) r else 0)"
    unfolding completedTests_def
    using pass [of 2] by (intro count_filter_status) simp
  have e: "count (mset (expiredTests Date clock results releases)) r
      = (if st = ''expired'' then count (mset releases) r else 0)"
    unfolding expiredTests_def
    using pass [of 3] by (intro count_filter_status) simp
  have total: "count (mset (activeTests Date clock results releases)
             + mset (upcomingTests Date clock results releases)
             + mset (completedTests Date clock results releases)
             + mset (expiredTests Date clock results releases)) r
      = count (mset releases) r"
  proof (cases "releases = []")
    case True
    then show ?thesis
      by (simp add: activeTests_def upcomingTests_def completedTests_def expiredTests_def
          js_sort_def)
  next
    case False
    then have "0 < 4 * ?n" by simp
    with assms have "getTestStatus Date (clock 0) results r = st" by blast
    then have "st = ''completed'' \<or> st = ''upcoming'' \<or> st = ''expired'' \<or> st = ''active''"
      using getTestStatus_cases [of Date "clock 0" results r] by simp
    then show ?thesis
      unfolding count_union a u c e by auto
  qed
  show ?thesis
    by (rule conjI [OF a conjI [OF u conjI [OF c conjI [OF e total]]]])
qed

lemmas dashboard_eval =
  activeTests_def upcomingTests_def completedTests_def expiredTests_def getTestStatus_def
  js_lt_def js_sub_def sort_order_def js_sort_def sample_Date_def sample_releases_def
  sample_results_def expired_release_def active_release_def upcoming_release_def
  completed_release_def starting_release_def steady_clock_def ticking_clock_def Let_def

lemma sample_dashboard:
  "activeTests sample_Date ticking_clock sample_results sample_releases = [active_release]"
  "upcomingTests sample_Date ticking_clock sample_results sample_releases = [upcoming_release]"
  "completedTests sample_Date ticking_clock sample_results sample_releases = [completed_release]"
  "expiredTests sample_Date ticking_clock sample_results sample_releases = [expired_release]"
  by (simp_all add: dashboard_eval)

lemma steady_dashboard:
  "activeTests sample_Date steady_clock sample_results sample_releases = [active_release]"
  "upcomingTests sample_Date steady_clock sample_results sample_releases = [upcoming_release]"
  "completedTests sample_Date steady_clock sample_results sample_releases = [completed_release]"
  by (simp_all add: dashboard_eval)

lemma distinct_sample_releases:
  "expired_release \<noteq> active_release" "expired_release \<noteq> upcoming_release"
  "expired_release \<noteq> completed_release"
  by (simp_all add: expired_release_def active_release_def upcoming_release_def
      completed_release_def)

text \<open>
  Claim C4 as stated gives three statuses, scheduled, active and completed, and lists
  every release under one of them. A release that ended without a result is
  \<^verbatim>\<open>expired\<close> and is in none of the three lists. And a release that starts between two
  readings of the clock is in no list at all: the pass for \<^verbatim>\<open>active\<close> finds it
  upcoming, the later passes find it active.
\<close>

theorem dashboard_three_statuses_counterexample:
  "(expired_release \<in> set sample_releases
    \<and> getTestStatus sample_Date (steady_clock 0) sample_results expired_release = ''expired''
    \<and> expired_release \<notin> set (upcomingTests sample_Date steady_clock sample_results sample_releases)
    \<and> expired_release \<notin> set (activeTests sample_Date steady_clock sample_results sample_releases)
    \<and> expired_release \<notin> set (completedTests sample_Date steady_clock sample_results sample_releases))
   \<and> (upcomingTests sample_Date ticking_clock sample_results [starting_release] = []
    \<and> activeTests sample_Date ticking_clock sample_results [starting_release] = []
    \<and> completedTests sample_Date ticking_clock sample_results [starting_release] = []
    \<and> expiredTests sample_Date ticking_clock sample_results [starting_release] = [])"
proof (rule conjI)
  show "expired_release \<in> set sample_releases
    \<and> getTestStatus sample_Date (steady_clock 0) sample_results expired_release = ''expired''
    \<and> expired_release \<notin> set (upcomingTests sample_Date steady_clock sample_results sample_releases)
    \<and> expired_release \<notin> set (activeTests sample_Date steady_clock sample_results sample_releases)
    \<and> expired_release \<notin> set (completedTests sample_Date steady_clock sample_results sample_releases)"
    by (simp add: steady_dashboard distinct_sample_releases)
       (simp add: getTestStatus_def js_lt_def sample_Date_def sample_releases_def
          sample_results_def expired_release_def steady_clock_def Let_def)
next
  show "upcomingTests sample_Date ticking_clock sample_results [starting_release] = []
    \<and> activeTests sample_Date ticking_clock sample_results [starting_release] = []
    \<and> completedTests sample_Date ticking_clock sample_results [starting_release] = []
    \<and> expiredTests sample_Date ticking_clock sample_results [starting_release] = []"
    by (simp add: dashboard_eval)
qed

theorem dashboard_lists_partition_witness:
  "(expired_release \<in> set sample_releases
    \<and> expiredTests sample_Date ticking_clock sample_results sample_releases = [expired_release])
   \<and> count (mset (activeTests sample_Date ticking_clock sample_results sample_releases)) expired_release
      = (if ''expired'' = ''active'' then count (mset sample_releases) expired_release else 0)
   \<and> count (mset (upcomingTests sample_Date ticking_clock sample_results sample_releases)) expired_release
      = (if ''expired'' = ''upcoming'' then count (mset sample_releases) expired_release else 0)
   \<and> count (mset (completedTests sample_Date ticking_clock sample_results sample_releases)) expired_release
      = (if ''expired'' = ''completed'' then count (mset sample_releases) expired_release else 0)
   \<and> count (mset (expiredTests sample_Date ticking_clock sample_results sample_releases)) expired_release
      = (if ''expired'' = ''expired'' then count (mset sample_releases) expired_release else 0)
   \<and> count (mset (activeTests sample_Date ticking_clock sample_results sample_releases)
            + mset (upcomingTests sample_Date ticking_clock sample_results sample_releases)
            + mset (completedTests sample_Date ticking_clock sample_results sample_releases)
            + mset (expiredTests sample_Date ticking_clock sample_results sample_releases))
        expired_release
      = count (mset sample_releases) expired_release"
proof -
  have stable: "\<forall>i<4 * length sample_releases.
      getTestStatus sample_Date (ticking_clock i) sample_results expired_release = ''expired''"
    by (simp add: getTestStatus_def js_lt_def sample_Date_def sample_results_def
        expired_release_def ticking_clock_def Let_def)
  have e: "expired_release \<in> set sample_releases
    \<and> expiredTests sample_Date ticking_clock sample_results sample_releases = [expired_release]"
    by (simp add: sample_dashboard) (simp add: sample_releases_def)
  show ?thesis
    by (rule conjI [OF e dashboard_lists_partition [OF stable]])
qed

text \<open>
  Claim C10. A result with the release's id makes the status \<^verbatim>\<open>completed\<close> whatever the
  times are. Without such a result the status is \<^verbatim>\<open>upcoming\<close> when \<^verbatim>\<open>now < start\<close>,
  otherwise \<^verbatim>\<open>expired\<close> when \<^verbatim>\<open>now > end\<close>, otherwise \<^verbatim>\<open>active\<close>; the cases are taken
  in this order, and \<^verbatim>\<open>now > end\<close> alone gives \<^verbatim>\<open>expired\<close> when the release does not end
  before it starts.
\<close>

theorem getTestStatus_completed_first:
  "(list_ex (\<lambda>res. test_release_id res = Some (rel_id r)) results
      \<longrightarrow> getTestStatus Date now results r = ''completed'')
   \<and> (\<not> list_ex (\<lambda>res. test_release_id res = Some (rel_id r)) results \<longrightarrow>
        (js_lt (Some now) (Date (start_time r))
           \<longrightarrow> getTestStatus Date now results r = ''upcoming'')
      \<and> (\<not> js_lt (Some now) (Date (start_time r)) \<and> js_lt (Date (end_time r)) (Some now)
           \<longrightarrow> getTestStatus Date now results r = ''expired'')
      \<and> (\<not> js_lt (Some now) (Date (start_time r)) \<and> \<not> js_lt (Date (end_time r)) (Some now)
           \<longrightarrow> getTestStatus Date now results r = ''active'')
      \<and> (\<not> js_lt (Date (end_time r)) (Date (start_time r)) \<and> js_lt (Date (end_time r)) (Some now)
           \<longrightarrow> getTestStatus Date now results r = ''expired''))"
  by (auto simp: getTestStatus_def Let_def js_lt_def split: option.splits)

theorem getTestStatus_completed_first_witness:
  "(list_ex (\<lambda>res. test_release_id res = Some (rel_id completed_release)) sample_results
    \<and> \<not> list_ex (\<lambda>res. test_release_id res = Some (rel_id upcoming_release)) sample_results
    \<and> js_lt (Some 5000) (sample_Date (start_time upcoming_release))
    \<and> \<not> list_ex (\<lambda>res. test_release_id res = Some (rel_id expired_release)) sample_results
    \<and> \<not> js_lt (Some 5000) (sample_Date (start_time expired_release))
    \<and> js_lt (sample_Date (end_time expired_release)) (Some 5000)
    \<and> \<not> list_ex (\<lambda>res. test_release_id res = Some (rel_id active_release)) sample_results
    \<and> \<not> js_lt (Some 5000) (sample_Date (start_time active_release))
    \<and> \<not> js_lt (sample_Date (end_time active_release)) (Some 5000))
   \<and> getTestStatus sample_Date 5000 sample_results completed_release = ''completed''
   \<and> getTestStatus sample_Date 5000 sample_results upcoming_release = ''upcoming''
   \<and> getTestStatus sample_Date 5000 sample_results expired_release = ''expired''
   \<and> getTestStatus sample_Date 5000 sample_results active_release = ''active''"
proof -
  note defs = js_lt_def sample_Date_def sample_results_def expired_release_def
    active_release_def upcoming_release_def completed_release_def
  note T = getTestStatus_completed_first
  have c1: "list_ex (\<lambda>res. test_release_id res = Some (rel_id completed_release)) sample_results"
    by (simp add: defs)
  have u1: "\<not> list_ex (\<lambda>res. test_release_id res = Some (rel_id upcoming_release)) sample_results"
    by (simp add: defs)
  have u2: "js_lt (Some 5000) (sample_Date (start_time upcoming_release))"
    by (simp add: defs)
  have e1: "\<not> list_ex (\<lambda>res. test_release_id res = Some (rel_id expired_release)) sample_results"
    by (simp add: defs)
  have e2: "\<not> js_lt (Some 5000) (sample_Date (start_time expired_release))"
    by (simp add: defs)
  have e3: "js_lt (sample_Date (end_time expired_release)) (Some 5000)"
    by (simp add: defs)
  have a1: "\<not> list_ex (\<lambda>res. test_release_id res = Some (rel_id active_release)) sample_results"
    by (simp add: defs)
  have a2: "\<not> js_lt (Some 5000) (sample_Date (start_time active_release))"
    by (simp add: defs)
  have a3: "\<not> js_lt (sample_Date (end_time active_release)) (Some 5000)"
    by (simp add: defs)
  have c: "getTestStatus sample_Date 5000 sample_results completed_release = ''completed''"
    by (rule T [of completed_release sample_results sample_Date 5000, THEN conjunct1, THEN mp, OF c1])
  have u: "getTestStatus sample_Date 5000 sample_results upcoming_release = ''upcoming''"
    by (rule T [of upcoming_release sample_results sample_Date 5000, THEN conjunct2, THEN mp,
          OF u1, THEN conjunct1, THEN mp, OF u2])
  have e: "getTestStatus sample_Date 5000 sample_results expired_release = ''expired''"
    by (rule T [of expired_release sample_results sample_Date 5000, THEN conjunct2, THEN mp,
          OF e1, THEN conjunct2, THEN conjunct1, THEN mp,
          OF conjI [OF e2 e3]])
  have a: "getTestStatus sample_Date 5000 sample_results active_release = ''active''"
    by (rule T [of active_release sample_results sample_Date 5000, THEN conjunct2, THEN mp,
          OF a1, THEN conjunct2, THEN conjunct2, THEN conjunct1,
          THEN mp, OF conjI [OF a2 a3]])
  show ?thesis
    by (intro conjI) (fact c1 u1 u2 e1 e2 e3 a1 a2 a3 c u e a)+
qed

section \<open>Properties of the login sequence\<close>

lemma await_fields [simp]:
  "awaits (await x s) = awaits s @ [x]"
  "authLoading (await x s) = authLoading s"
  "loginProcessing (await x s) = loginProcessing s"
  by (simp_all add: await_def)

lemma finish_fields [simp]:
  "awaits (finish s) = awaits s"
  "\<not> authLoading (finish s)"
  "\<not> loginProcessing (finish s)"
  by (simp_all add: finish_def)

lemma fetchRole_awaits [simp]: "awaits (fetchRole client env s) = awaits s"
  by (simp add: fetchRole_def resolve_role_def Let_def split: query_answer.splits)

lemma poll_awaits:
  "\<exists>new. awaits (poll_state (poll env i s)) = awaits s @ new
      \<and> count_list new GetSession \<le> 3 - i
      \<and> (\<forall>ms. RaceFetchRole ms \<notin> set new)"
proof (induction env i s rule: poll.induct)
  case (1 env i s)
  show ?case
  proof (cases "i < 3")
    case False
    then show ?thesis by (simp add: poll.simps [of env i s] poll_state_def)
  next
    case True
    show ?thesis
    proof (cases "getSession env i")
      case Rejected
      with True show ?thesis by (simp add: poll.simps [of env i s] poll_state_def)
    next
      case (Resolved sess)
      show ?thesis
      proof (cases "session_user sess \<noteq> None")
        case True
        with \<open>i < 3\<close> Resolved show ?thesis
          by (simp add: poll.simps [of env i s] poll_state_def)
      next
        case False
        from "1.IH" [OF \<open>i < 3\<close> Resolved False]
        obtain new where new:
          "awaits (poll_state (poll env (i + 1) (await (Sleep 300) (await GetSession s))))
             = awaits (await (Sleep 300) (await GetSession s)) @ new"
          "count_list new GetSession \<le> 3 - (i + 1)"
          "\<forall>ms. RaceFetchRole ms \<notin> set new"
          by blast
        have "poll env i s = poll env (i + 1) (await (Sleep 300) (await GetSession s))"
          using \<open>i < 3\<close> Resolved False by (simp add: poll.simps [of env i s])
        then have "awaits (poll_state (poll env i s)) = awaits s @ (GetSession # Sleep 300 # new)"
          using new(1) by simp
        moreover have "count_list (GetSession # Sleep 300 # new) GetSession \<le> 3 - i"
          using new(2) \<open>i < 3\<close> by simp
        moreover have "\<forall>ms. RaceFetchRole ms \<notin> set (GetSession # Sleep 300 # new)"
          using new(3) by simp
        ultimately show ?thesis by blast
      qed
    qed
  qed
qed

lemma handleLoginSuccess_awaits:
  assumes "\<not> loginProcessing s"
  shows "\<exists>new. awaits (handleLoginSuccess client env s) = awaits s @ new
      \<and> count_list new GetSession \<le> 3
      \<and> (\<forall>ms. RaceFetchRole ms \<in> set new \<longrightarrow> ms = 5000)"
proof (cases client)
  case False
  with assms show ?thesis by (simp add: handleLoginSuccess_def Let_def)
next
  case True
  define s1 where "s1 = await (Sleep 500)
    (s\<lparr> loginProcessing := True, authLoading := True,
        loadingMessage := ''Verificando Credenciais...'' \<rparr>)"
  obtain new where new: "awaits (poll_state (poll env 0 s1)) = awaits s1 @ new"
    "count_list new GetSession \<le> 3" "\<forall>ms. RaceFetchRole ms \<notin> set new"
    using poll_awaits [of env 0 s1] by auto
  have s1: "awaits s1 = awaits s @ [Sleep 500]"
    by (simp add: s1_def)
  show ?thesis
  proof (cases "poll env 0 s1")
    case (Threw s2)
    then have "awaits (handleLoginSuccess client env s) = awaits s @ (Sleep 500 # new)"
      using assms True new(1) s1 by (simp add: handleLoginSuccess_def Let_def s1_def poll_state_def)
    moreover have "count_list (Sleep 500 # new) GetSession \<le> 3" using new(2) by simp
    moreover have "\<forall>ms. RaceFetchRole ms \<in> set (Sleep 500 # new) \<longrightarrow> ms = 5000"
      using new(3) by simp
    ultimately show ?thesis by blast
  next
    case (Got cur s2)
    then have s2: "awaits s2 = awaits s @ (Sleep 500 # new)"
      using new(1) s1 by (simp add: poll_state_def)
    show ?thesis
    proof (cases "session_user cur \<noteq> None")
      case False
      then have "awaits (handleLoginSuccess client env s) = awaits s @ (Sleep 500 # new)"
        using assms True Got s2 by (simp add: handleLoginSuccess_def Let_def s1_def)
      moreover have "count_list (Sleep 500 # new) GetSession \<le> 3" using new(2) by simp
      moreover have "\<forall>ms. RaceFetchRole ms \<in> set (Sleep 500 # new) \<longrightarrow> ms = 5000"
        using new(3) by simp
      ultimately show ?thesis by blast
    next
      case yes: True
      then have "awaits (handleLoginSuccess client env s)
          = awaits s @ (Sleep 500 # new @ [RaceFetchRole 5000, Sleep 300])"
        using assms True Got s2
        by (simp add: handleLoginSuccess_def Let_def s1_def split: race_winner.splits)
      moreover have "count_list (Sleep 500 # new @ [RaceFetchRole 5000, Sleep 300]) GetSession \<le> 3"
        using new(2) by simp
      moreover have "\<forall>ms. RaceFetchRole ms \<in> set (Sleep 500 # new @ [RaceFetchRole 5000, Sleep 300])
          \<longrightarrow> ms = 5000"
        using new(3) by simp
      ultimately show ?thesis by blast
    qed
  qed
qed

lemma handleLoginSuccess_flags:
  assumes "\<not> loginProcessing s"
  shows "\<not> authLoading (handleLoginSuccess client env s)
    \<and> \<not> loginProcessing (handleLoginSuccess client env s)"
  using assms
  by (simp add: handleLoginSuccess_def Let_def split: poll_result.splits race_winner.splits)


lemma poll_found:
  assumes "\<forall>j<k. \<exists>x. getSession env (i + j) = Resolved x \<and> session_user x = None"
    and "getSession env (i + k) = Resolved sess" and "session_user sess \<noteq> None"
    and "i + k < 3"
  shows "poll env i s
    = Got sess (s\<lparr> awaits := awaits s @ concat (replicate k [GetSession, Sleep 300]) @ [GetSession] \<rparr>)"
  using assms
proof (induction k arbitrary: i s)
  case 0
  then show ?case by (simp add: poll.simps [of env i s] await_def)
next
  case (Suc k)
  from Suc.prems(1) [THEN spec, of 0] obtain x where x: "getSession env i = Resolved x"
    "session_user x = None" by auto
  have i: "i < 3" using Suc.prems(4) by simp
  have step: "poll env i s = poll env (i + 1) (await (Sleep 300) (await GetSession s))"
    using i x by (simp add: poll.simps [of env i s])
  have "\<forall>j<k. \<exists>x. getSession env (i + 1 + j) = Resolved x \<and> session_user x = None"
  proof (intro allI impI)
    fix j assume "j < k"
    then have "Suc j < Suc k" by simp
    with Suc.prems(1) have "\<exists>x. getSession env (i + Suc j) = Resolved x \<and> session_user x = None"
      by blast
    then show "\<exists>x. getSession env (i + 1 + j) = Resolved x \<and> session_user x = None" by simp
  qed
  moreover have "getSession env (i + 1 + k) = Resolved sess" using Suc.prems(2) by simp
  moreover have "i + 1 + k < 3" using Suc.prems(4) by simp
  ultimately have "poll env (i + 1) (await (Sleep 300) (await GetSession s))
    = Got sess ((await (Sleep 300) (await GetSession s))
        \<lparr> awaits := awaits (await (Sleep 300) (await GetSession s))
            @ concat (replicate k [GetSession, Sleep 300]) @ [GetSession] \<rparr>)"
    using Suc.prems(3) by (intro Suc.IH)
  then show ?case unfolding step by (simp add: await_def)
qed

lemma poll_rejected:
  assumes "\<forall>j<k. \<exists>x. getSession env (i + j) = Resolved x \<and> session_user x = None"
    and "getSession env (i + k) = Rejected" and "i + k < 3"
  shows "poll env i s
    = Threw (s\<lparr> awaits := awaits s @ concat (replicate k [GetSession, Sleep 300]) @ [GetSession] \<rparr>)"
  using assms
proof (induction k arbitrary: i s)
  case 0
  then show ?case by (simp add: poll.simps [of env i s] await_def)
next
  case (Suc k)
  from Suc.prems(1) [THEN spec, of 0] obtain x where x: "getSession env i = Resolved x"
    "session_user x = None" by auto
  have i: "i < 3" using Suc.prems(3) by simp
  have step: "poll env i s = poll env (i + 1) (await (Sleep 300) (await GetSession s))"
    using i x by (simp add: poll.simps [of env i s])
  have "\<forall>j<k. \<exists>x. getSession env (i + 1 + j) = Resolved x \<and> session_user x = None"
  proof (intro allI impI)
    fix j assume "j < k"
    then have "Suc j < Suc k" by simp
    with Suc.prems(1) have "\<exists>x. getSession env (i + Suc j) = Resolved x \<and> session_user x = None"
      by blast
    then show "\<exists>x. getSession env (i + 1 + j) = Resolved x \<and> session_user x = None" by simp
  qed
  moreover have "getSession env (i + 1 + k) = Rejected" using Suc.prems(2) by simp
  moreover have "i + 1 + k < 3" using Suc.prems(3) by simp
  ultimately have "poll env (i + 1) (await (Sleep 300) (await GetSession s))
    = Threw ((await (Sleep 300) (await GetSession s))
        \<lparr> awaits := awaits (await (Sleep 300) (await GetSession s))
            @ concat (replicate k [GetSession, Sleep 300]) @ [GetSession] \<rparr>)"
    by (intro Suc.IH)
  then show ?case unfolding step by (simp add: await_def)
qed

lemma poll_none:
  assumes "\<forall>j<k. \<exists>x. getSession env (i + j) = Resolved x \<and> session_user x = None"
    and "i + k = 3"
  shows "poll env i s
    = Got None (s\<lparr> awaits := awaits s @ concat (replicate k [GetSession, Sleep 300]) \<rparr>)"
  using assms
proof (induction k arbitrary: i s)
  case 0
  then show ?case by (simp add: poll.simps [of env 3 s])
next
  case (Suc k)
  from Suc.prems(1) [THEN spec, of 0] obtain x where x: "getSession env i = Resolved x"
    "session_user x = None" by auto
  have i: "i < 3" using Suc.prems(2) by simp
  have step: "poll env i s = poll env (i + 1) (await (Sleep 300) (await GetSession s))"
    using i x by (simp add: poll.simps [of env i s])
  have "\<forall>j<k. \<exists>x. getSession env (i + 1 + j) = Resolved x \<and> session_user x = None"
  proof (intro allI impI)
    fix j assume "j < k"
    then have "Suc j < Suc k" by simp
    with Suc.prems(1) have "\<exists>x. getSession env (i + Suc j) = Resolved x \<and> session_user x = None"
      by blast
    then show "\<exists>x. getSession env (i + 1 + j) = Resolved x \<and> session_user x = None" by simp
  qed
  moreover have "i + 1 + k = 3" using Suc.prems(2) by simp
  ultimately have "poll env (i + 1) (await (Sleep 300) (await GetSession s))
    = Got None ((await (Sleep 300) (await GetSession s))
        \<lparr> awaits := awaits (await (Sleep 300) (await GetSession s))
            @ concat (replicate k [GetSession, Sleep 300]) \<rparr>)"
    by (intro Suc.IH)
  then show ?case unfolding step by (simp add: await_def)
qed

lemma fetchRole_fields [simp]:
  "session (fetchRole client env s) = session s"
  "authLoading (fetchRole client env s) = authLoading s"
  "loginProcessing (fetchRole client env s) = loginProcessing s"
  "loadingMessage (fetchRole client env s) = loadingMessage s"
  by (simp_all add: fetchRole_def resolve_role_def Let_def split: query_answer.splits)

lemma fetchRole_role:
  "userRole (fetchRole client env (s\<lparr> awaits := w \<rparr>)) = userRole (fetchRole client env s)"
  "userRole (fetchRole client env (s\<lparr> session := x \<rparr>)) = userRole (fetchRole client env s)"
  "userRole (fetchRole client env (s\<lparr> loadingMessage := m \<rparr>)) = userRole (fetchRole client env s)"
  "userRole (fetchRole client env (s\<lparr> authLoading := b \<rparr>)) = userRole (fetchRole client env s)"
  "userRole (fetchRole client env (s\<lparr> loginProcessing := b \<rparr>)) = userRole (fetchRole client env s)"
  by (simp_all add: fetchRole_def resolve_role_def Let_def split: query_answer.splits)

lemma handleLoginSuccess_found:
  assumes "\<not> loginProcessing s"
    and "\<forall>j<k. \<exists>x. getSession env j = Resolved x \<and> session_user x = None"
    and "getSession env k = Resolved sess" and "session_user sess \<noteq> None" and "k < 3"
  shows "awaits (handleLoginSuccess True env s)
      = awaits s @ Sleep 500 # concat (replicate k [GetSession, Sleep 300])
          @ [GetSession, RaceFetchRole 5000, Sleep 300]
    \<and> session (handleLoginSuccess True env s) = sess
    \<and> loadingMessage (handleLoginSuccess True env s) = ''Preparando Ambiente...''
    \<and> userRole (handleLoginSuccess True env s)
      = (case winner env of FetchFirst \<Rightarrow> userRole (fetchRole True env s)
         | TimerFirst \<Rightarrow> userRole s)"
proof -
  define s1 where "s1 = await (Sleep 500)
    (s\<lparr> loginProcessing := True, authLoading := True,
        loadingMessage := ''Verificando Credenciais...'' \<rparr>)"
  have p: "poll env 0 s1
    = Got sess (s1\<lparr> awaits := awaits s1 @ concat (replicate k [GetSession, Sleep 300]) @ [GetSession] \<rparr>)"
    using assms(2-5) by (intro poll_found) simp_all
  show ?thesis
    using assms(1,4)
    by (simp add: handleLoginSuccess_def Let_def s1_def [symmetric] p)
       (simp add: s1_def await_def finish_def fetchRole_role split: race_winner.splits)
qed

lemma handleLoginSuccess_rejected:
  assumes "\<not> loginProcessing s"
    and "\<forall>j<k. \<exists>x. getSession env j = Resolved x \<and> session_user x = None"
    and "getSession env k = Rejected" and "k < 3"
  shows "awaits (handleLoginSuccess True env s)
      = awaits s @ Sleep 500 # concat (replicate k [GetSession, Sleep 300]) @ [GetSession]
    \<and> session (handleLoginSuccess True env s) = session s
    \<and> userRole (handleLoginSuccess True env s) = userRole s"
proof -
  define s1 where "s1 = await (Sleep 500)
    (s\<lparr> loginProcessing := True, authLoading := True,
        loadingMessage := ''Verificando Credenciais...'' \<rparr>)"
  have p: "poll env 0 s1
    = Threw (s1\<lparr> awaits := awaits s1 @ concat (replicate k [GetSession, Sleep 300]) @ [GetSession] \<rparr>)"
    using assms(2-4) by (intro poll_rejected) simp_all
  show ?thesis
    using assms(1)
    by (simp add: handleLoginSuccess_def Let_def s1_def [symmetric] p)
       (simp add: s1_def await_def finish_def)
qed

lemma handleLoginSuccess_absent:
  assumes "\<not> loginProcessing s"
    and "\<forall>j<3. \<exists>x. getSession env j = Resolved x \<and> session_user x = None"
  shows "awaits (handleLoginSuccess True env s)
      = awaits s @ Sleep 500 # concat (replicate 3 [GetSession, Sleep 300])
    \<and> session (handleLoginSuccess True env s) = session s
    \<and> userRole (handleLoginSuccess True env s) = userRole s"
proof -
  define s1 where "s1 = await (Sleep 500)
    (s\<lparr> loginProcessing := True, authLoading := True,
        loadingMessage := ''Verificando Credenciais...'' \<rparr>)"
  have p: "poll env 0 s1
    = Got None (s1\<lparr> awaits := awaits s1 @ concat (replicate 3 [GetSession, Sleep 300]) \<rparr>)"
    using assms(2) by (intro poll_none) simp_all
  show ?thesis
    using assms(1)
    by (simp add: handleLoginSuccess_def Let_def s1_def [symmetric] p session_user_def)
       (simp add: s1_def await_def finish_def)
qed

lemma handleLoginSuccess_no_client:
  assumes "\<not> loginProcessing s"
  shows "awaits (handleLoginSuccess False env s) = awaits s
    \<and> session (handleLoginSuccess False env s) = session s
    \<and> userRole (handleLoginSuccess False env s) = userRole s"
  using assms by (simp add: handleLoginSuccess_def Let_def finish_def)

text \<open>
  Claim C5, amended. A call of \<^verbatim>\<open>handleLoginSuccess\<close> that finds the guard
  \<^verbatim>\<open>loginProcessingRef.current\<close> set returns at once and changes nothing. A call that
  finds it clear ends with \<^verbatim>\<open>authLoading\<close> false and the guard clear, after at most 3
  calls of \<^verbatim>\<open>getSession\<close>, on each of its paths:
  \<^item> without a client it awaits nothing;
  \<^item> when the call \<open>k\<close> of \<^verbatim>\<open>getSession\<close> (\<open>k < 3\<close>) is the first to return a session
    with a user, it has waited 500 ms, polled \<open>k + 1\<close> times with 300 ms after each
    failed poll, then sets the session, races the role fetch against a timer of 5000 ms,
    waits 300 ms; the role is the fetched one when the fetch settles first;
  \<^item> when the call \<open>k\<close> rejects, it stops polling there and races nothing;
  \<^item> when all 3 calls return no user, it has polled 3 times and races nothing.
\<close>

theorem handleLoginSuccess_ends_unlocked:
  fixes s s' :: app_state and client :: bool and env :: env
  defines "s' \<equiv> handleLoginSuccess client env s"
  shows "(loginProcessing s \<longrightarrow> s' = s)
   \<and> (\<not> loginProcessing s \<longrightarrow>
        \<not> authLoading s'
      \<and> \<not> loginProcessing s'
      \<and> (\<exists>new. awaits s' = awaits s @ new
            \<and> count_list new GetSession \<le> 3
            \<and> (\<forall>ms. RaceFetchRole ms \<in> set new \<longrightarrow> ms = 5000))
      \<and> (\<not> client \<longrightarrow>
            awaits s' = awaits s \<and> session s' = session s \<and> userRole s' = userRole s)
      \<and> (client \<longrightarrow>
            (\<forall>k sess.
               k < 3
               \<and> (\<forall>j<k. \<exists>x. getSession env j = Resolved x \<and> session_user x = None)
               \<and> getSession env k = Resolved sess \<and> session_user sess \<noteq> None
               \<longrightarrow> awaits s' = awaits s @ Sleep 500 # concat (replicate k [GetSession, Sleep 300])
                                @ [GetSession, RaceFetchRole 5000, Sleep 300]
                 \<and> session s' = sess
                 \<and> loadingMessage s' = ''Preparando Ambiente...''
                 \<and> userRole s' = (case winner env of
                                     FetchFirst \<Rightarrow> userRole (fetchRole True env s)
                                   | TimerFirst \<Rightarrow> userRole s))
          \<and> (\<forall>k.
               k < 3
               \<and> (\<forall>j<k. \<exists>x. getSession env j = Resolved x \<and> session_user x = None)
               \<and> getSession env k = Rejected
               \<longrightarrow> awaits s' = awaits s @ Sleep 500 # concat (replicate k [GetSession, Sleep 300])
                                @ [GetSession]
                 \<and> session s' = session s \<and> userRole s' = userRole s)
          \<and> ((\<forall>j<3. \<exists>x. getSession env j = Resolved x \<and> session_user x = None)
               \<longrightarrow> awaits s' = awaits s @ Sleep 500 # concat (replicate 3 [GetSession, Sleep 300])
                 \<and> session s' = session s \<and> userRole s' = userRole s)))"
proof (intro conjI impI allI)
  assume "loginProcessing s"
  then show "s' = s" by (simp add: s'_def handleLoginSuccess_def)
next
  assume "\<not> loginProcessing s"
  then show "\<not> authLoading s'" and "\<not> loginProcessing s'"
    using handleLoginSuccess_flags [of s client env] by (simp_all add: s'_def)
next
  assume "\<not> loginProcessing s"
  then show "\<exists>new. awaits s' = awaits s @ new \<and> count_list new GetSession \<le> 3
      \<and> (\<forall>ms. RaceFetchRole ms \<in> set new \<longrightarrow> ms = 5000)"
    unfolding s'_def by (rule handleLoginSuccess_awaits)
next
  assume a: "\<not> loginProcessing s" "\<not> client"
  from handleLoginSuccess_no_client [OF a(1), of env] a(2)
  show "awaits s' = awaits s" and "session s' = session s" and "userRole s' = userRole s"
    by (simp_all add: s'_def)
next
  fix k sess
  assume a: "\<not> loginProcessing s" "client"
    and h: "k < 3 \<and> (\<forall>j<k. \<exists>x. getSession env j = Resolved x \<and> session_user x = None)
      \<and> getSession env k = Resolved sess \<and> session_user sess \<noteq> None"
  have "awaits (handleLoginSuccess True env s)
      = awaits s @ Sleep 500 # concat (replicate k [GetSession, Sleep 300])
          @ [GetSession, RaceFetchRole 5000, Sleep 300]
    \<and> session (handleLoginSuccess True env s) = sess
    \<and> loadingMessage (handleLoginSuccess True env s) = ''Preparando Ambiente...''
    \<and> userRole (handleLoginSuccess True env s)
      = (case winner env of FetchFirst \<Rightarrow> userRole (fetchRole True env s)
         | TimerFirst \<Rightarrow> userRole s)"
    using a(1) h by (intro handleLoginSuccess_found) simp_all
  then show "awaits s' = awaits s @ Sleep 500 # concat (replicate k [GetSession, Sleep 300])
        @ [GetSession, RaceFetchRole 5000, Sleep 300]"
    and "session s' = sess"
    and "loadingMessage s' = ''Preparando Ambiente...''"
    and "userRole s' = (case winner env of FetchFirst \<Rightarrow> userRole (fetchRole True env s)
         | TimerFirst \<Rightarrow> userRole s)"
    using a(2) by (simp_all add: s'_def)
next
  fix k
  assume a: "\<not> loginProcessing s" "client"
    and h: "k < 3 \<and> (\<forall>j<k. \<exists>x. getSession env j = Resolved x \<and> session_user x = None)
      \<and> getSession env k = Rejected"
  have "awaits (handleLoginSuccess True env s)
      = awaits s @ Sleep 500 # concat (replicate k [GetSession, Sleep 300]) @ [GetSession]
    \<and> session (handleLoginSuccess True env s) = session s
    \<and> userRole (handleLoginSuccess True env s) = userRole s"
    using a(1) h by (intro handleLoginSuccess_rejected) simp_all
  then show "awaits s' = awaits s @ Sleep 500 # concat (replicate k [GetSession, Sleep 300])
        @ [GetSession]"
    and "session s' = session s" and "userRole s' = userRole s"
    using a(2) by (simp_all add: s'_def)
next
  assume a: "\<not> loginProcessing s" "client"
    and h: "\<forall>j<3. \<exists>x. getSession env j = Resolved x \<and> session_user x = None"
  from handleLoginSuccess_absent [OF a(1) h]
  show "awaits s' = awaits s @ Sleep 500 # concat (replicate 3 [GetSession, Sleep 300])"
    and "session s' = session s" and "userRole s' = userRole s"
    using a(2) by (simp_all add: s'_def)
qed

lemmas login_eval =
  handleLoginSuccess_def poll.simps await_def finish_def session_user_def fetchRole_def
  resolve_role_def extractRoleFromAppUser_def sample_env_def idle_state_def busy_state_def Let_def

lemma sample_login:
  "handleLoginSuccess True sample_env idle_state =
     \<lparr> session = Some \<lparr> user = Some \<lparr> uid = ''u1'' \<rparr> \<rparr>, userRole = ''Student'',
       authLoading = False, loadingMessage = ''Preparando Ambiente...'',
       loginProcessing = False, profileResolved = True,
       awaits = [Sleep 500, GetSession, Sleep 300, GetSession, RaceFetchRole 5000, Sleep 300] \<rparr>"
  by (simp add: login_eval)

text \<open>
  Claim C5 as stated covers every path that ends. While an earlier call is still
  awaiting, a second call returns with \<^verbatim>\<open>authLoading\<close> true and the guard set.
\<close>

theorem handleLoginSuccess_guard_counterexample:
  "loginProcessing busy_state
   \<and> authLoading (handleLoginSuccess True sample_env busy_state)
   \<and> loginProcessing (handleLoginSuccess True sample_env busy_state)"
  by (simp add: handleLoginSuccess_def busy_state_def idle_state_def)

theorem handleLoginSuccess_ends_unlocked_witness:
  "(\<not> loginProcessing idle_state \<and> loginProcessing busy_state
    \<and> getSession sample_env 0 = Resolved None
    \<and> getSession sample_env 1 = Resolved (Some \<lparr> user = Some \<lparr> uid = ''u1'' \<rparr> \<rparr>)
    \<and> winner sample_env = FetchFirst)
   \<and> handleLoginSuccess True sample_env busy_state = busy_state
   \<and> \<not> authLoading (handleLoginSuccess True sample_env idle_state)
   \<and> \<not> loginProcessing (handleLoginSuccess True sample_env idle_state)
   \<and> (\<exists>new. awaits (handleLoginSuccess True sample_env idle_state) = awaits idle_state @ new
         \<and> count_list new GetSession \<le> 3
         \<and> (\<forall>ms. RaceFetchRole ms \<in> set new \<longrightarrow> ms = 5000))
   \<and> awaits (handleLoginSuccess True sample_env idle_state)
       = awaits idle_state @ Sleep 500 # concat (replicate 1 [GetSession, Sleep 300])
           @ [GetSession, RaceFetchRole 5000, Sleep 300]
   \<and> session (handleLoginSuccess True sample_env idle_state)
       = Some \<lparr> user = Some \<lparr> uid = ''u1'' \<rparr> \<rparr>
   \<and> awaits (handleLoginSuccess True sample_env idle_state)
       = [Sleep 500, GetSession, Sleep 300, GetSession, RaceFetchRole 5000, Sleep 300]"
proof -
  have idle: "\<not> loginProcessing idle_state"
    by (simp add: idle_state_def)
  have busy: "loginProcessing busy_state"
    by (simp add: busy_state_def idle_state_def)
  have g0: "getSession sample_env 0 = Resolved None"
    and g1: "getSession sample_env 1 = Resolved (Some \<lparr> user = Some \<lparr> uid = ''u1'' \<rparr> \<rparr>)"
    and w: "winner sample_env = FetchFirst"
    by (simp_all add: sample_env_def)
  note T = handleLoginSuccess_ends_unlocked
  have b: "handleLoginSuccess True sample_env busy_state = busy_state"
    by (rule T [of busy_state True sample_env, THEN conjunct1, THEN mp, OF busy])
  note i = T [of idle_state True sample_env, THEN conjunct2, THEN mp, OF idle]
  note c = i [THEN conjunct2, THEN conjunct2, THEN conjunct2, THEN conjunct2, THEN mp, OF TrueI,
      THEN conjunct1, THEN spec, THEN spec, THEN mp]
  have pre: "1 < (3::nat)
      \<and> (\<forall>j<1. \<exists>x. getSession sample_env j = Resolved x \<and> session_user x = None)
      \<and> getSession sample_env 1 = Resolved (Some \<lparr> user = Some \<lparr> uid = ''u1'' \<rparr> \<rparr>)
      \<and> session_user (Some \<lparr> user = Some \<lparr> uid = ''u1'' \<rparr> \<rparr>) \<noteq> None"
    using g0 g1 by (simp add: session_user_def)
  note found = c [OF pre]
  have log: "awaits (handleLoginSuccess True sample_env idle_state)
      = [Sleep 500, GetSession, Sleep 300, GetSession, RaceFetchRole 5000, Sleep 300]"
    using found [THEN conjunct1] by (simp add: idle_state_def)
  show ?thesis
    by (intro conjI) (fact idle busy g0 g1 w b i [THEN conjunct1]
        i [THEN conjunct2, THEN conjunct1] i [THEN conjunct2, THEN conjunct2, THEN conjunct1]
        found [THEN conjunct1] found [THEN conjunct2, THEN conjunct1] log)+
qed

end
